theory Spec2Isabelle
  imports Main
begin

section \<open>Values loaded from a submission file\<close>

text \<open>
  Both scripts work on whatever \<^verbatim>\<open>yaml.safe_load\<close> (or \<^verbatim>\<open>json.load\<close>) returns:
  \<^verbatim>\<open>None\<close>, booleans, integers, strings, lists and dictionaries. A dictionary is an
  association list in insertion order (the scripts dump with \<^verbatim>\<open>sort_keys=False\<close>), looked
  up with \<open>map_of\<close>. A \<open>char\<close> stands for a code point below 256. Floating point numbers
  and timestamps are not part of the model.
\<close>

datatype yaml =
    YNull
  | YBool bool
  | YInt int
  | YStr string
  | YList "yaml list"
  | YDict "(yaml \<times> yaml) list"

datatype exn = AttributeError | TypeError | OSError | YAMLError | JSONDecodeError

subsection \<open>The string operations of Python the scripts call\<close>

text \<open>\<^verbatim>\<open>str.isspace\<close> on one character, which is also what \<^verbatim>\<open>\s\<close> matches.\<close>

definition isspace :: "char \<Rightarrow> bool" where
  "isspace c = (let n = (of_char c :: nat) in
     (9 \<le> n \<and> n \<le> 13) \<or> (28 \<le> n \<and> n \<le> 32) \<or> n = 133 \<or> n = 160)"

text \<open>What \<^verbatim>\<open>\d\<close> matches: below code point 256 only the ten ASCII digits.\<close>

definition isdigit :: "char \<Rightarrow> bool" where
  "isdigit c = (let n = (of_char c :: nat) in 48 \<le> n \<and> n \<le> 57)"

definition py_lstrip :: "string \<Rightarrow> string" where
  "py_lstrip s = dropWhile isspace s"

definition py_rstrip :: "string \<Rightarrow> string" where
  "py_rstrip s = rev (dropWhile isspace (rev s))"

text \<open>\<^verbatim>\<open>s.strip()\<close>\<close>

definition py_strip :: "string \<Rightarrow> string" where
  "py_strip s = py_rstrip (py_lstrip s)"

text \<open>\<^verbatim>\<open>s.rstrip('.')\<close>\<close>

definition rstrip_dots :: "string \<Rightarrow> string" where
  "rstrip_dots s = rev (dropWhile (\<lambda>c. c = CHR ''.'') (rev s))"

text \<open>\<^verbatim>\<open>s.startswith(p)\<close>\<close>

definition py_startswith :: "string \<Rightarrow> string \<Rightarrow> bool" where
  "py_startswith s p = (take (length p) s = p)"

definition py_endswith :: "string \<Rightarrow> string \<Rightarrow> bool" where
  "py_endswith s p = (length p \<le> length s \<and> drop (length s - length p) s = p)"

text \<open>
  \<^verbatim>\<open>re.sub(r'^\s*\d+\.\s*', '', s)\<close>. The pattern is anchored at the start and every
  part of it is greedy over a character class disjoint from what follows, so it matches in
  exactly one way or not at all: all leading whitespace, then all following digits (at
  least one), then a period, then all whitespace after it. Without a match the string is
  returned as it is.
\<close>

definition re_sub_numbering :: "string \<Rightarrow> string" where
  "re_sub_numbering s =
     (let s1 = dropWhile isspace s;
          ds = takeWhile isdigit s1;
          s2 = dropWhile isdigit s1
      in if ds \<noteq> [] \<and> s2 \<noteq> [] \<and> hd s2 = CHR ''.''
         then dropWhile isspace (tl s2) else s)"

subsection \<open>Built-in operations on loaded values\<close>

text \<open>Truth value of an object in a condition.\<close>

fun truthy :: "yaml \<Rightarrow> bool" where
  "truthy YNull = False"
| "truthy (YBool b) = b"
| "truthy (YInt i) = (i \<noteq> 0)"
| "truthy (YStr s) = (s \<noteq> [])"
| "truthy (YList xs) = (xs \<noteq> [])"
| "truthy (YDict kvs) = (kvs \<noteq> [])"

text \<open>\<^verbatim>\<open>d.get(k, default)\<close> on a dictionary \<open>d\<close> with a string key.\<close>

definition dict_get :: "(yaml \<times> yaml) list \<Rightarrow> string \<Rightarrow> yaml \<Rightarrow> yaml" where
  "dict_get d k dflt = (case map_of d (YStr k) of Some v \<Rightarrow> v | None \<Rightarrow> dflt)"

text \<open>
  \<^verbatim>\<open>d[k] = v\<close>: an existing key keeps its place, a new key goes last.
\<close>

fun dict_set :: "(yaml \<times> yaml) list \<Rightarrow> yaml \<Rightarrow> yaml \<Rightarrow> (yaml \<times> yaml) list" where
  "dict_set [] k v = [(k, v)]"
| "dict_set ((k', v') # d) k v = (if k' = k then (k, v) # d else (k', v') # dict_set d k v)"

text \<open>
  \<^verbatim>\<open>for x in obj\<close>: the items the loop sees, or the \<^verbatim>\<open>TypeError\<close> of an object that
  is not iterable. A string yields its characters, a dictionary its keys.
\<close>

fun py_iter :: "yaml \<Rightarrow> exn + yaml list" where
  "py_iter (YList xs) = Inr xs"
| "py_iter (YStr s) = Inr (map (\<lambda>c. YStr [c]) s)"
| "py_iter (YDict kvs) = Inr (map fst kvs)"
| "py_iter YNull = Inl TypeError"
| "py_iter (YBool b) = Inl TypeError"
| "py_iter (YInt i) = Inl TypeError"

text \<open>\<^verbatim>\<open>str(i)\<close> of an integer.\<close>

fun decimal :: "nat \<Rightarrow> string" where
  "decimal n =
     (if n < 10 then [''0123456789'' ! n]
      else decimal (n div 10) @ [''0123456789'' ! (n mod 10)])"

definition str_int :: "int \<Rightarrow> string" where
  "str_int i = (if i < 0 then CHR ''-'' # decimal (nat (- i)) else decimal (nat i))"

text \<open>
  \<^verbatim>\<open>repr\<close> of a string: single quotes unless the string has a single quote and no double
  quote; the quote and the backslash are escaped, tab, newline and carriage return are
  written \<^verbatim>\<open>\t\<close>, \<^verbatim>\<open>\n\<close>, \<^verbatim>\<open>\r\<close>, and every other non-printable character as
  \<^verbatim>\<open>\xNN\<close>.
\<close>

definition isprintable :: "char \<Rightarrow> bool" where
  "isprintable c = (let n = (of_char c :: nat) in
     (32 \<le> n \<and> n < 127) \<or> (161 \<le> n \<and> n \<noteq> 173))"

definition repr_char :: "char \<Rightarrow> char \<Rightarrow> string" where
  "repr_char q c =
     (let n = (of_char c :: nat) in
      if c = q \<or> c = CHR 0x5C then [CHR 0x5C, c]
      else if n = 9 then [CHR 0x5C, CHR ''t'']
      else if n = 10 then [CHR 0x5C, CHR ''n'']
      else if n = 13 then [CHR 0x5C, CHR ''r'']
      else if isprintable c then [c]
      else [CHR 0x5C, CHR ''x'', ''0123456789abcdef'' ! (n div 16),
            ''0123456789abcdef'' ! (n mod 16)])"

definition repr_str :: "string \<Rightarrow> string" where
  "repr_str s =
     (let q = (if CHR 0x27 \<in> set s \<and> CHR 0x22 \<notin> set s then CHR 0x22 else CHR 0x27)
      in q # concat (map (repr_char q) s) @ [q])"

text \<open>\<^verbatim>\<open>sep.join(xs)\<close>\<close>

fun str_join :: "string \<Rightarrow> string list \<Rightarrow> string" where
  "str_join sep [] = []"
| "str_join sep [x] = x"
| "str_join sep (x # y # ys) = x @ sep @ str_join sep (y # ys)"

fun py_repr :: "yaml \<Rightarrow> string" where
  "py_repr YNull = ''None''"
| "py_repr (YBool b) = (if b then ''True'' else ''False'')"
| "py_repr (YInt i) = str_int i"
| "py_repr (YStr s) = repr_str s"
| "py_repr (YList xs) = ''['' @ str_join '', '' (map py_repr xs) @ '']''"
| "py_repr (YDict kvs) =
     ''{'' @ str_join '', '' (map (\<lambda>(k, v). py_repr k @ '': '' @ py_repr v) kvs) @ ''}''"

text \<open>\<^verbatim>\<open>str(v)\<close>: the string itself for a string, its \<^verbatim>\<open>repr\<close> otherwise.\<close>

definition py_str :: "yaml \<Rightarrow> string" where
  "py_str v = (case v of YStr s \<Rightarrow> s | _ \<Rightarrow> py_repr v)"

text \<open>
  A loop body that may raise, run over a list: the first exception ends the loop.
\<close>

fun map_exn :: "('a \<Rightarrow> exn + 'b) \<Rightarrow> 'a list \<Rightarrow> exn + 'b list" where
  "map_exn f [] = Inr []"
| "map_exn f (x # xs) =
     (case f x of
        Inl e \<Rightarrow> Inl e
      | Inr y \<Rightarrow> (case map_exn f xs of Inl e \<Rightarrow> Inl e | Inr ys \<Rightarrow> Inr (y # ys)))"

section \<open>The environment: files and the serialisation libraries\<close>

text \<open>
  A path is a string. The file system gives the text of each file that can be opened for
  reading (\<open>None\<close>: opening raises), says which directories
  \<^verbatim>\<open>mkdir(parents=True, exist_ok=True)\<close> can make, and lists the names in a directory in
  the order \<^verbatim>\<open>glob\<close> yields them.

  Both scripts write with \<^verbatim>\<open>with open(p, 'w') as f: yaml.dump(data, f, ...)\<close>. On a path
  that is \<open>writable\<close> this goes through and the file holds the text dumped. On any other
  path an exception ends it, and \<open>write_fault\<close> gives the exception and what it leaves
  behind: \<open>None\<close> when \<^verbatim>\<open>open\<close> itself raises, so that the file is as it was, and \<open>Some t\<close>
  when the file was already opened, and so truncated, and holds the text \<open>t\<close> written before
  the exception (the empty text when nothing was written).
\<close>

type_synonym path = string

record fs =
  files :: "path \<Rightarrow> string option"
  writable :: "path \<Rightarrow> bool"
  write_fault :: "path \<Rightarrow> exn \<times> string option"
  mkdir_ok :: "path \<Rightarrow> bool"
  listing :: "path \<Rightarrow> string list"

text \<open>
  PyYAML and the json module are libraries, not code of the scripts: their three entry
  points are parameters. A loader returns \<open>None\<close> where the library raises its parse
  error (\<^verbatim>\<open>yaml.YAMLError\<close>, \<^verbatim>\<open>json.JSONDecodeError\<close>).
\<close>

record codec =
  yaml_safe_load :: "string \<Rightarrow> yaml option"
  json_load :: "string \<Rightarrow> yaml option"
  yaml_dump :: "yaml \<Rightarrow> string"

definition write_file :: "fs \<Rightarrow> path \<Rightarrow> string \<Rightarrow> fs" where
  "write_file s p t = s\<lparr>files := (files s)(p \<mapsto> t)\<rparr>"

text \<open>
  A write that fails on the path \<open>p\<close>: the exception raised, and the file system it leaves.
\<close>

definition write_failure :: "fs \<Rightarrow> path \<Rightarrow> exn \<times> fs" where
  "write_failure s p =
     (case write_fault s p of
        (e, None) \<Rightarrow> (e, s)
      | (e, Some t) \<Rightarrow> (e, write_file s p t))"

text \<open>\<^verbatim>\<open>Path(d) / name\<close>\<close>

definition joinpath :: "path \<Rightarrow> string \<Rightarrow> path" where
  "joinpath d n = d @ ''/'' @ n"

text \<open>\<^verbatim>\<open>Path(d).glob("*" + ext)\<close>, as paths and as names.\<close>

definition glob_names :: "fs \<Rightarrow> path \<Rightarrow> string \<Rightarrow> string list" where
  "glob_names s d ext = filter (\<lambda>n. py_endswith n ext) (listing s d)"

text \<open>What the scripts print, one constructor per \<^verbatim>\<open>print\<close> call.\<close>

datatype message =
    FixedCodeUrl path
  | CodeUrlAlreadyValid path
  | ErrorProcessing path exn
  | UrlWarning string
  | SuccessfullyFixed path
  | ErrorFixing path exn
  | Renaming string string
  | WillRename string string
  | NoSubmissionFiles path
  | BatchComplete nat nat

section \<open>fix\_code\_url.py\<close>

definition NOT_SPECIFIED :: string where
  "NOT_SPECIFIED = ''NOT_SPECIFIED''"

definition fallback_url :: string where
  "fallback_url = ''http://www.quantum-espresso.org/download''"

text \<open>
  The condition of line 16,
  \<^verbatim>\<open>not code_url or code_url == 'NOT_SPECIFIED' or code_url.strip() == ''\<close>,
  evaluated left to right: \<^verbatim>\<open>.strip\<close> is reached only by a truthy value other than the
  sentinel, and raises \<^verbatim>\<open>AttributeError\<close> on anything but a string.
\<close>

definition needs_fix :: "yaml \<Rightarrow> exn + bool" where
  "needs_fix code_url =
     (if \<not> truthy code_url then Inr True
      else if code_url = YStr NOT_SPECIFIED then Inr True
      else (case code_url of
              YStr s \<Rightarrow> Inr (py_strip s = [])
            | _ \<Rightarrow> Inl AttributeError))"

text \<open>
  The body of the \<^verbatim>\<open>try\<close> of \<open>fix_code_url\<close>: the messages printed, then either the
  exception that left the body, with the file system at that moment, or the value returned
  with the file system after it.
\<close>

definition fix_code_url_body ::
  "codec \<Rightarrow> fs \<Rightarrow> path \<Rightarrow> message list \<times> (exn \<times> fs + bool \<times> fs)" where
  "fix_code_url_body cd s file_path =
     (case files s file_path of
        None \<Rightarrow> ([], Inl (OSError, s))
      | Some txt \<Rightarrow>
          (case yaml_safe_load cd txt of
             None \<Rightarrow> ([], Inl (YAMLError, s))
           | Some (YDict d) \<Rightarrow>
               (case needs_fix (dict_get d ''code_url'' (YStr [])) of
                  Inl e \<Rightarrow> ([], Inl (e, s))
                | Inr True \<Rightarrow>
                    (let d' = dict_set d (YStr ''code_url'') (YStr fallback_url) in
                     if writable s file_path
                     then ([FixedCodeUrl file_path],
                           Inr (True, write_file s file_path (yaml_dump cd (YDict d'))))
                     else ([FixedCodeUrl file_path], Inl (write_failure s file_path)))
                | Inr False \<Rightarrow> ([CodeUrlAlreadyValid file_path], Inr (False, s)))
           | Some _ \<Rightarrow> ([], Inl (AttributeError, s))))"

text \<open>The function: the body under its \<^verbatim>\<open>except Exception\<close> handler.\<close>

definition fix_code_url :: "codec \<Rightarrow> fs \<Rightarrow> path \<Rightarrow> bool \<times> message list \<times> fs" where
  "fix_code_url cd s file_path =
     (case fix_code_url_body cd s file_path of
        (out, Inl (e, s')) \<Rightarrow> (False, out @ [ErrorProcessing file_path e], s')
      | (out, Inr (r, s')) \<Rightarrow> (r, out, s'))"

section \<open>fix\_submission.py\<close>

subsection \<open>The record transformation of fix\_submission\_file\<close>

text \<open>
  Lines 53 to 59 for one string entry: \<open>None\<close> when the cleaned text is empty and the
  entry is not appended.
\<close>

definition clean_instruction :: "string \<Rightarrow> string option" where
  "clean_instruction inst =
     (let cleaned = rstrip_dots (re_sub_numbering (py_strip inst))
      in if cleaned \<noteq> [] then Some cleaned else None)"

text \<open>The loop of lines 51 to 61.\<close>

fun cleaned_instructions :: "yaml list \<Rightarrow> yaml list" where
  "cleaned_instructions [] = []"
| "cleaned_instructions (YStr s # rest) =
     (case clean_instruction s of
        Some cleaned \<Rightarrow> YStr cleaned # cleaned_instructions rest
      | None \<Rightarrow> cleaned_instructions rest)"
| "cleaned_instructions (inst # rest) = YStr (py_str inst) # cleaned_instructions rest"

text \<open>
  Lines 39 to 63 for one claim. \<^verbatim>\<open>claim.get\<close> raises \<^verbatim>\<open>AttributeError\<close> on anything but a
  dictionary; a lone string is wrapped in a list; the loop over the instructions raises
  \<^verbatim>\<open>TypeError\<close> when they cannot be iterated.
\<close>

fun fixed_claim :: "yaml \<Rightarrow> exn + yaml" where
  "fixed_claim (YDict c) =
     (let instructions = dict_get c ''instruction'' (YList []);
          instructions = (case instructions of YStr s \<Rightarrow> YList [YStr s] | _ \<Rightarrow> instructions)
      in case py_iter instructions of
           Inl e \<Rightarrow> Inl e
         | Inr insts \<Rightarrow>
             Inr (YDict [(YStr ''claim'', dict_get c ''claim'' (YStr [])),
                         (YStr ''instruction'', YList (cleaned_instructions insts))]))"
| "fixed_claim _ = Inl AttributeError"

text \<open>Lines 37 to 64: the claims of the new record.\<close>

definition fixed_claims :: "(yaml \<times> yaml) list \<Rightarrow> exn + yaml list" where
  "fixed_claims d =
     (case map_of d (YStr ''claims'') of
        None \<Rightarrow> Inr []
      | Some cs \<Rightarrow>
          if truthy cs
          then (case py_iter cs of Inl e \<Rightarrow> Inl e | Inr claims \<Rightarrow> map_exn fixed_claim claims)
          else Inr [])"

text \<open>
  Lines 24 to 64: \<open>fixed_data\<close> once the claims are in. \<^verbatim>\<open>data.get\<close> raises
  \<^verbatim>\<open>AttributeError\<close> when the loaded document is not a dictionary.
\<close>

fun fixed_data :: "yaml \<Rightarrow> exn + (yaml \<times> yaml) list" where
  "fixed_data (YDict d) =
     (case fixed_claims d of
        Inl e \<Rightarrow> Inl e
      | Inr claims \<Rightarrow>
          Inr [(YStr ''username'', dict_get d ''username'' (YStr [])),
               (YStr ''paper_title'', dict_get d ''paper_title'' (YStr [])),
               (YStr ''paper_pdf'', dict_get d ''paper_pdf'' (YStr [])),
               (YStr ''identifier'', dict_get d ''identifier'' (YStr [])),
               (YStr ''claim_type'', YStr ''custom_code''),
               (YStr ''code_url'', dict_get d ''code_url'' (YStr NOT_SPECIFIED)),
               (YStr ''data_url'', dict_get d ''data_url'' (YStr NOT_SPECIFIED)),
               (YStr ''claims'', YList claims),
               (YStr ''non_reproducible_claims'',
                  dict_get d ''non_reproducible_claims'' (YList []))])"
| "fixed_data _ = Inl AttributeError"

subsection \<open>URL validation, loading and writing\<close>

text \<open>
  Lines 69 to 72 for one field: the warning printed, if any, or the \<^verbatim>\<open>AttributeError\<close>
  of \<^verbatim>\<open>url.startswith\<close> on a truthy value that is not a string.
\<close>

definition check_url :: "(yaml \<times> yaml) list \<Rightarrow> string \<Rightarrow> exn + message list" where
  "check_url fixed field =
     (case map_of fixed (YStr field) of
        None \<Rightarrow> Inr []
      | Some url \<Rightarrow>
          if truthy url
          then (case url of
                  YStr u \<Rightarrow>
                    if u \<noteq> NOT_SPECIFIED
                       \<and> \<not> (py_startswith u ''http://'' \<or> py_startswith u ''https://'')
                    then Inr [UrlWarning field] else Inr []
                | _ \<Rightarrow> Inl AttributeError)
          else Inr [])"

text \<open>The loop of lines 68 to 72: the warnings printed so far, and the exception if one
  ended the loop.\<close>

fun validate_urls :: "(yaml \<times> yaml) list \<Rightarrow> string list \<Rightarrow> message list \<times> exn option" where
  "validate_urls fixed [] = ([], None)"
| "validate_urls fixed (field # rest) =
     (case check_url fixed field of
        Inl e \<Rightarrow> ([], Some e)
      | Inr w \<Rightarrow> (case validate_urls fixed rest of (ws, r) \<Rightarrow> (w @ ws, r)))"

definition url_fields :: "string list" where
  "url_fields = [''paper_pdf'', ''code_url'', ''data_url'']"

text \<open>Lines 16 to 21: YAML first, JSON when YAML does not parse.\<close>

definition load_submission :: "codec \<Rightarrow> fs \<Rightarrow> path \<Rightarrow> exn + yaml" where
  "load_submission cd s input_file =
     (case files s input_file of
        None \<Rightarrow> Inl OSError
      | Some txt \<Rightarrow>
          (case yaml_safe_load cd txt of
             Some data \<Rightarrow> Inr data
           | None \<Rightarrow>
               (case json_load cd txt of
                  Some data \<Rightarrow> Inr data
                | None \<Rightarrow> Inl JSONDecodeError)))"

text \<open>
  The body of the \<^verbatim>\<open>try\<close> of \<open>fix_submission_file\<close>, with the output path already
  defaulted: the messages printed, then the exception that left the body, with the file
  system at that moment, or the file system after the write. Loading, transforming and
  checking the URLs change no file; the write of lines 75 and 76 comes last, and when it
  fails the target may already have been opened and truncated.
\<close>

definition fix_submission_body ::
  "codec \<Rightarrow> fs \<Rightarrow> path \<Rightarrow> path \<Rightarrow> message list \<times> (exn \<times> fs + fs)" where
  "fix_submission_body cd s input_file output_file =
     (case load_submission cd s input_file of
        Inl e \<Rightarrow> ([], Inl (e, s))
      | Inr data \<Rightarrow>
          (case fixed_data data of
             Inl e \<Rightarrow> ([], Inl (e, s))
           | Inr fixed \<Rightarrow>
               (case validate_urls fixed url_fields of
                  (ws, Some e) \<Rightarrow> (ws, Inl (e, s))
                | (ws, None) \<Rightarrow>
                    if writable s output_file
                    then (ws @ [SuccessfullyFixed input_file],
                          Inr (write_file s output_file (yaml_dump cd (YDict fixed))))
                    else (ws, Inl (write_failure s output_file)))))"

definition fix_submission_file ::
  "codec \<Rightarrow> fs \<Rightarrow> path \<Rightarrow> path option \<Rightarrow> bool \<times> message list \<times> fs" where
  "fix_submission_file cd s input_file output_file =
     (let out_file = (case output_file of None \<Rightarrow> input_file | Some p \<Rightarrow> p)
      in case fix_submission_body cd s input_file out_file of
           (out, Inl (e, s')) \<Rightarrow> (False, out @ [ErrorFixing input_file e], s')
         | (out, Inr s') \<Rightarrow> (True, out, s'))"

subsection \<open>validate\_filename\<close>

text \<open>\<^verbatim>\<open>os.path.basename\<close> (POSIX): what follows the last slash.\<close>

definition basename :: "path \<Rightarrow> string" where
  "basename p = rev (takeWhile (\<lambda>c. c \<noteq> CHR ''/'') (rev p))"

text \<open>The character class \<^verbatim>\<open>[a-zA-Z0-9_.-]\<close>.\<close>

definition allowed_char :: "char \<Rightarrow> bool" where
  "allowed_char c = (let n = (of_char c :: nat) in
     (97 \<le> n \<and> n \<le> 122) \<or> (65 \<le> n \<and> n \<le> 90) \<or> (48 \<le> n \<and> n \<le> 57)
     \<or> c = CHR ''_'' \<or> c = CHR ''.'' \<or> c = CHR ''-'')"

text \<open>
  \<^verbatim>\<open>re.match(r'^[a-zA-Z0-9_.-]+$', s)\<close>: the greedy class takes every leading allowed
  character, at least one, and \<^verbatim>\<open>$\<close> then matches at the end of the string or just
  before a newline that ends it.
\<close>

definition re_match_allowed :: "string \<Rightarrow> bool" where
  "re_match_allowed s =
     (let r = dropWhile allowed_char s
      in takeWhile allowed_char s \<noteq> [] \<and> (r = [] \<or> r = [CHR 0x0A]))"

text \<open>\<^verbatim>\<open>re.sub(r'[^a-zA-Z0-9_.-]', '_', s)\<close>\<close>

definition re_sub_disallowed :: "string \<Rightarrow> string" where
  "re_sub_disallowed s = map (\<lambda>c. if allowed_char c then c else CHR ''_'') s"

definition validate_filename :: "string \<Rightarrow> bool \<times> string" where
  "validate_filename filename =
     (let b = basename filename
      in if re_match_allowed b then (True, b) else (False, re_sub_disallowed b))"

subsection \<open>batch\_fix\_submissions\<close>

text \<open>
  Lines 121 to 142: the loop over the names found, carrying the two counters, the
  messages printed and the file system.
\<close>

fun batch_loop ::
  "codec \<Rightarrow> path \<Rightarrow> path option \<Rightarrow> string list \<Rightarrow> nat \<times> nat \<times> message list \<times> fs
     \<Rightarrow> nat \<times> nat \<times> message list \<times> fs" where
  "batch_loop cd input_path output_path [] st = st"
| "batch_loop cd input_path output_path (n # rest) (successful, failed, out, s) =
     (let file_path = joinpath input_path n;
          (is_valid, suggested_name) = validate_filename n;
          (output_file, out1) =
            (case output_path of
               Some o_path \<Rightarrow>
                 if is_valid then (joinpath o_path n, [])
                 else (joinpath o_path suggested_name, [Renaming n suggested_name])
             | None \<Rightarrow>
                 if \<not> is_valid
                 then (joinpath input_path suggested_name, [WillRename n suggested_name])
                 else (file_path, []));
          (ok, out2, s') = fix_submission_file cd s file_path (Some output_file)
      in batch_loop cd input_path output_path rest
           (if ok then (successful + 1, failed, out @ out1 @ out2, s')
            else (successful, failed + 1, out @ out1 @ out2, s')))"

text \<open>
  The driver. An empty output directory name counts as none given. A directory that
  cannot be made raises before any file is read; with no file found the driver prints one
  line and returns.
\<close>

definition batch_fix_submissions ::
  "codec \<Rightarrow> fs \<Rightarrow> path \<Rightarrow> path option \<Rightarrow> exn + message list \<times> fs" where
  "batch_fix_submissions cd s input_directory output_directory =
     (let output_path = (case output_directory of
                           Some o_dir \<Rightarrow> if o_dir \<noteq> [] then Some o_dir else None
                         | None \<Rightarrow> None)
      in if (case output_path of Some o_path \<Rightarrow> \<not> mkdir_ok s o_path | None \<Rightarrow> False)
         then Inl OSError
         else
           (let submission_files =
                  glob_names s input_directory ''.yaml'' @ glob_names s input_directory ''.yml''
                  @ glob_names s input_directory ''.json''
            in if submission_files = [] then Inr ([NoSubmissionFiles input_directory], s)
               else (case batch_loop cd input_directory output_path submission_files (0, 0, [], s) of
                       (successful, failed, out, s') \<Rightarrow>
                         Inr (out @ [BatchComplete successful failed], s'))))"

section \<open>The shape of a numbered instruction\<close>

text \<open>
  An entry of the form \<^verbatim>\<open>^\s*\d+\.\s*<text>\.?$\<close>, built from its parts: the whitespace
  before the number, the digits, the whitespace after the period, the text, and whether a
  period follows the text.
\<close>

definition numbered_entry :: "string \<Rightarrow> string \<Rightarrow> string \<Rightarrow> string \<Rightarrow> bool \<Rightarrow> string" where
  "numbered_entry ws1 ds ws2 txt dot =
     ws1 @ ds @ ''.'' @ ws2 @ txt @ (if dot then ''.'' else [])"

section \<open>Kinds of printed message\<close>

text \<open>
  The line that reports a file as fixed, the line that reports a file as failed, and the
  URL warning, told apart so that the lines of a batch run can be counted.
\<close>

fun is_success :: "message \<Rightarrow> bool" where
  "is_success (SuccessfullyFixed p) = True"
| "is_success _ = False"

fun is_error :: "message \<Rightarrow> bool" where
  "is_error (ErrorFixing p e) = True"
| "is_error _ = False"

fun is_warning :: "message \<Rightarrow> bool" where
  "is_warning (UrlWarning f) = True"
| "is_warning _ = False"

section \<open>Instructions that a second cleaning leaves alone\<close>

text \<open>
  \<open>has_numbering\<close>: the string starts with digits and a period, so the pattern of line 55
  matches it again. \<open>instruction_entries\<close>: every instruction entry of every claim of a
  record. \<open>cleaned_shape\<close>: what is true of every entry the loop of lines 52 to 61 appends:
  it is not empty, does not start with whitespace and does not end with a period.
\<close>

definition has_numbering :: "string \<Rightarrow> bool" where
  "has_numbering s =
     (let r = dropWhile isdigit s in takeWhile isdigit s \<noteq> [] \<and> r \<noteq> [] \<and> hd r = CHR ''.'')"

fun claim_instructions :: "yaml \<Rightarrow> yaml list" where
  "claim_instructions (YDict c) =
     (case map_of c (YStr ''instruction'') of Some (YList xs) \<Rightarrow> xs | _ \<Rightarrow> [])"
| "claim_instructions _ = []"

definition instruction_entries :: "(yaml \<times> yaml) list \<Rightarrow> yaml list" where
  "instruction_entries r =
     (case map_of r (YStr ''claims'') of
        Some (YList cs) \<Rightarrow> concat (map claim_instructions cs)
      | _ \<Rightarrow> [])"

definition cleaned_shape :: "string \<Rightarrow> bool" where
  "cleaned_shape t = (t \<noteq> [] \<and> \<not> isspace (hd t) \<and> last t \<noteq> CHR ''.'')"

section \<open>Auxiliary facts\<close>

subsection \<open>Stripping\<close>

lemma dropWhile_id: "xs \<noteq> [] \<Longrightarrow> \<not> P (hd xs) \<Longrightarrow> dropWhile P xs = xs"
  by (cases xs) auto

lemma rev_dropWhile_rev_id: "xs \<noteq> [] \<Longrightarrow> \<not> P (last xs) \<Longrightarrow> rev (dropWhile P (rev xs)) = xs"
  by (simp add: dropWhile_id hd_rev)

lemma py_strip_empty_iff: "py_strip w = [] \<longleftrightarrow> (\<forall>c\<in>set w. isspace c)"
proof
  assume "py_strip w = []"
  then have a: "\<forall>c\<in>set (dropWhile isspace w). isspace c"
    by (simp add: py_strip_def py_rstrip_def py_lstrip_def dropWhile_eq_Nil_conv)
  have "dropWhile isspace w = []"
  proof (rule ccontr)
    assume n: "dropWhile isspace w \<noteq> []"
    then have "\<not> isspace (hd (dropWhile isspace w))" by (rule hd_dropWhile)
    moreover have "hd (dropWhile isspace w) \<in> set (dropWhile isspace w)" using n by simp
    ultimately show False using a by blast
  qed
  then show "\<forall>c\<in>set w. isspace c" by (simp add: dropWhile_eq_Nil_conv)
next
  assume "\<forall>c\<in>set w. isspace c"
  then show "py_strip w = []"
    by (auto simp: py_strip_def py_rstrip_def py_lstrip_def dest: set_dropWhileD)
qed

lemma py_strip_id:
  "s \<noteq> [] \<Longrightarrow> \<not> isspace (hd s) \<Longrightarrow> \<not> isspace (last s) \<Longrightarrow> py_strip s = s"
  by (simp add: py_strip_def py_rstrip_def py_lstrip_def dropWhile_id rev_dropWhile_rev_id)

lemma rstrip_dots_id: "s \<noteq> [] \<Longrightarrow> last s \<noteq> CHR ''.'' \<Longrightarrow> rstrip_dots s = s"
  by (simp add: rstrip_dots_def rev_dropWhile_rev_id)

lemma rstrip_dots_last: "rstrip_dots s \<noteq> [] \<Longrightarrow> last (rstrip_dots s) \<noteq> CHR ''.''"
  unfolding rstrip_dots_def using hd_dropWhile[of "\<lambda>c. c = CHR ''.''" "rev s"]
  by (simp add: last_rev)

lemma rev_dropWhile_rev_hd:
  "rev (dropWhile P (rev xs)) \<noteq> [] \<Longrightarrow> hd (rev (dropWhile P (rev xs))) = hd xs"
proof -
  assume n: "rev (dropWhile P (rev xs)) \<noteq> []"
  have "rev xs = takeWhile P (rev xs) @ dropWhile P (rev xs)" by simp
  then have "xs = rev (dropWhile P (rev xs)) @ rev (takeWhile P (rev xs))"
    by (metis rev_append rev_rev_ident)
  then show ?thesis using n by (metis hd_append2)
qed

lemma py_strip_hd: "py_strip s \<noteq> [] \<Longrightarrow> \<not> isspace (hd (py_strip s))"
proof -
  assume n: "py_strip s \<noteq> []"
  then have "hd (py_strip s) = hd (dropWhile isspace s)"
    unfolding py_strip_def py_rstrip_def py_lstrip_def by (rule rev_dropWhile_rev_hd)
  moreover have "dropWhile isspace s \<noteq> []"
    using n by (auto simp: py_strip_def py_rstrip_def py_lstrip_def dest: set_dropWhileD)
  ultimately show ?thesis using hd_dropWhile[of isspace s] by simp
qed

lemma py_strip_last: "py_strip s \<noteq> [] \<Longrightarrow> \<not> isspace (last (py_strip s))"
  unfolding py_strip_def py_rstrip_def
  using hd_dropWhile[of isspace "rev (py_lstrip s)"] by (simp add: last_rev)

lemma re_sub_numbering_hd:
  assumes "s \<noteq> [] \<longrightarrow> \<not> isspace (hd s)" and "re_sub_numbering s \<noteq> []"
  shows "\<not> isspace (hd (re_sub_numbering s))"
proof (cases "re_sub_numbering s = s")
  case True
  then show ?thesis using assms by auto
next
  case False
  then have "re_sub_numbering s = dropWhile isspace (tl (dropWhile isdigit (dropWhile isspace s)))"
    by (auto simp: re_sub_numbering_def Let_def split: if_splits)
  then show ?thesis using assms(2) hd_dropWhile[of isspace] by metis
qed

lemma clean_instruction_shape:
  assumes "clean_instruction s = Some t"
  shows "t \<noteq> [] \<and> \<not> isspace (hd t) \<and> last t \<noteq> CHR ''.''"
proof -
  let ?u = "re_sub_numbering (py_strip s)"
  from assms have t: "t = rstrip_dots ?u" and ne: "t \<noteq> []"
    by (auto simp: clean_instruction_def Let_def split: if_splits)
  have l: "last t \<noteq> CHR ''.''" using t ne rstrip_dots_last by blast
  have hdt: "hd t = hd ?u" using t ne unfolding rstrip_dots_def by (simp add: rev_dropWhile_rev_hd)
  have une: "?u \<noteq> []" using t ne by (auto simp: rstrip_dots_def)
  have "py_strip s \<noteq> [] \<longrightarrow> \<not> isspace (hd (py_strip s))" using py_strip_hd by blast
  then have "\<not> isspace (hd ?u)" using une by (rule re_sub_numbering_hd)
  then show ?thesis using ne l hdt by simp
qed

subsection \<open>Loops that may raise, and the shape of a normalised claim\<close>

lemma map_exn_Inr_set:
  "map_exn f xs = Inr ys \<Longrightarrow> y \<in> set ys \<Longrightarrow> \<exists>x\<in>set xs. f x = Inr y"
  by (induction xs arbitrary: ys) (auto split: sum.splits)

lemma map_exn_Inl:
  "x \<in> set xs \<Longrightarrow> f x = Inl e \<Longrightarrow> \<exists>e'. map_exn f xs = Inl e'"
  by (induction xs) (auto split: sum.splits)




lemma fixed_claim_keys:
  "fixed_claim c = Inr c' \<Longrightarrow>
     \<exists>cl ins. c' = YDict [(YStr ''claim'', cl), (YStr ''instruction'', YList ins)]"
  by (cases c) (auto simp: Let_def split: sum.splits)

lemma fixed_claims_cases:
  assumes "fixed_claims d = Inr cs"
  shows "cs = [] \<or> (\<exists>xs. map_exn fixed_claim xs = Inr cs)"
  using assms unfolding fixed_claims_def
  by (simp split: option.splits if_splits sum.splits) blast

lemma fixed_claims_keys:
  assumes "fixed_claims d = Inr cs" and "c \<in> set cs"
  shows "\<exists>cl ins. c = YDict [(YStr ''claim'', cl), (YStr ''instruction'', YList ins)]"
proof -
  from assms(2) have "cs \<noteq> []" by auto
  with fixed_claims_cases[OF assms(1)] obtain xs where xs: "map_exn fixed_claim xs = Inr cs"
    by blast
  from map_exn_Inr_set[OF xs assms(2)] obtain x where "fixed_claim x = Inr c" by blast
  then show ?thesis by (rule fixed_claim_keys)
qed

subsection \<open>Dictionary update, character classes, the placeholder test\<close>

lemma map_of_dict_set: "map_of (dict_set d k v) = (map_of d)(k \<mapsto> v)"
  by (induction d k v rule: dict_set.induct) auto

lemma isdigit_not_isspace: "isdigit c \<Longrightarrow> \<not> isspace c"
  by (auto simp: isdigit_def isspace_def Let_def)

lemma dot_not_isspace: "\<not> isspace CHR ''.''"
  by (simp add: isspace_def)

lemma dot_not_isdigit: "\<not> isdigit CHR ''.''"
  by (simp add: isdigit_def)

lemma needs_fix_placeholder:
  assumes "v = YNull \<or> (\<exists>w. v = YStr w \<and> ((\<forall>c\<in>set w. isspace c) \<or> w = NOT_SPECIFIED))"
  shows "needs_fix v = Inr True"
  using assms by (auto simp: needs_fix_def py_strip_empty_iff)

lemma needs_fix_valid:
  assumes "u \<noteq> []" and "\<exists>c\<in>set u. \<not> isspace c" and "u \<noteq> NOT_SPECIFIED"
  shows "needs_fix (YStr u) = Inr False"
  using assms by (auto simp: needs_fix_def py_strip_empty_iff)

lemma takeWhile_all_then: "(\<forall>x\<in>set xs. P x) \<Longrightarrow> \<not> P y \<Longrightarrow> takeWhile P (xs @ y # ys) = xs"
  by (simp add: takeWhile_append2)

lemma dropWhile_all_then:
  "(\<forall>x\<in>set xs. P x) \<Longrightarrow> \<not> P y \<Longrightarrow> dropWhile P (xs @ y # ys) = y # ys"
  by (simp add: dropWhile_append2)

lemma dropWhile_all_nonempty:
  "(\<forall>x\<in>set xs. P x) \<Longrightarrow> ys \<noteq> [] \<Longrightarrow> \<not> P (hd ys) \<Longrightarrow> dropWhile P (xs @ ys) = ys"
  by (cases ys) (simp_all add: dropWhile_append2)

subsection \<open>URL validation\<close>

lemma check_url_string:
  "map_of fixed (YStr f) = Some (YStr u) \<Longrightarrow>
   check_url fixed f =
     Inr (if u \<noteq> [] \<and> u \<noteq> NOT_SPECIFIED
             \<and> \<not> (py_startswith u ''http://'' \<or> py_startswith u ''https://'')
          then [UrlWarning f] else [])"
  by (simp add: check_url_def)

lemma check_url_falsy:
  "map_of fixed (YStr f) = Some v \<Longrightarrow> \<not> truthy v \<Longrightarrow> check_url fixed f = Inr []"
  by (simp add: check_url_def)

lemma check_url_no_raise:
  assumes "map_of fixed (YStr f) = Some v" and "\<not> truthy v \<or> (\<exists>u. v = YStr u)"
  shows "\<exists>w. check_url fixed f = Inr w"
  using assms check_url_string[of fixed f] check_url_falsy[of fixed f v] by auto

lemma validate_urls_warns:
  assumes "\<forall>g\<in>set gs. \<exists>w. check_url fixed g = Inr w"
      and "f \<in> set gs" and "check_url fixed f = Inr [UrlWarning f]"
  shows "\<exists>ws. validate_urls fixed gs = (ws, None) \<and> UrlWarning f \<in> set ws"
  using assms
proof (induction gs)
  case Nil
  then show ?case by simp
next
  case (Cons g gs)
  from Cons.prems(1) obtain w where w: "check_url fixed g = Inr w" by auto
  show ?case
  proof (cases "f \<in> set gs")
    case True
    with Cons obtain ws where "validate_urls fixed gs = (ws, None)" "UrlWarning f \<in> set ws"
      by auto
    with w show ?thesis by simp
  next
    case False
    with Cons.prems(2) have fg: "g = f" by simp
    have "\<forall>g\<in>set gs. \<exists>w. check_url fixed g = Inr w" using Cons.prems(1) by simp
    then have "\<exists>ws. validate_urls fixed gs = (ws, None)"
      by (induction gs) (auto split: sum.splits prod.splits)
    then obtain ws where "validate_urls fixed gs = (ws, None)" ..
    with w fg Cons.prems(3) show ?thesis by auto
  qed
qed

lemma fixed_data_url_fields:
  assumes "fixed_data (YDict d) = Inr fixed"
  shows "map_of fixed (YStr ''paper_pdf'') = Some (dict_get d ''paper_pdf'' (YStr []))"
    and "map_of fixed (YStr ''code_url'') = Some (dict_get d ''code_url'' (YStr NOT_SPECIFIED))"
    and "map_of fixed (YStr ''data_url'') = Some (dict_get d ''data_url'' (YStr NOT_SPECIFIED))"
  using assms by (auto split: sum.splits)

subsection \<open>Messages of one file and of the batch loop\<close>

lemma is_warning_other: "is_warning m \<Longrightarrow> \<not> is_success m \<and> \<not> is_error m"
  by (cases m) auto

lemma check_url_msgs: "check_url fixed g = Inr w \<Longrightarrow> \<forall>m\<in>set w. is_warning m"
  by (auto simp: check_url_def split: option.splits if_splits yaml.splits)

lemma validate_urls_msgs: "validate_urls fixed gs = (ws, r) \<Longrightarrow> \<forall>m\<in>set ws. is_warning m"
proof (induction gs arbitrary: ws r)
  case Nil
  then show ?case by simp
next
  case (Cons g gs)
  show ?case
  proof (cases "check_url fixed g")
    case (Inl e)
    with Cons.prems show ?thesis by simp
  next
    case (Inr w)
    obtain ws' r' where v: "validate_urls fixed gs = (ws', r')" by (cases "validate_urls fixed gs")
    with Inr Cons.prems have "ws = w @ ws'" by simp
    moreover have "\<forall>m\<in>set w. is_warning m" using Inr by (rule check_url_msgs)
    moreover have "\<forall>m\<in>set ws'. is_warning m" using v by (rule Cons.IH)
    ultimately show ?thesis by auto
  qed
qed

lemma fix_submission_body_msgs:
  assumes "fix_submission_body cd s i t = (out, r)"
  shows "(\<exists>e s'. r = Inl (e, s') \<and> (\<forall>m\<in>set out. is_warning m))
       \<or> (\<exists>ws s'. r = Inr s' \<and> out = ws @ [SuccessfullyFixed i] \<and> (\<forall>m\<in>set ws. is_warning m))"
proof (cases "load_submission cd s i")
  case (Inl e)
  with assms show ?thesis by (auto simp: fix_submission_body_def)
next
  case (Inr data)
  note l = this
  show ?thesis
  proof (cases "fixed_data data")
    case (Inl e)
    with l assms show ?thesis by (auto simp: fix_submission_body_def)
  next
    case (Inr fixed)
    obtain ws x where v: "validate_urls fixed url_fields = (ws, x)"
      by (cases "validate_urls fixed url_fields")
    then have w: "\<forall>m\<in>set ws. is_warning m" by (rule validate_urls_msgs)
    from assms l Inr v w show ?thesis
      by (cases x) (auto simp: fix_submission_body_def split: if_splits)
  qed
qed

lemma fix_submission_file_cases:
  "(\<exists>ws s1. fix_submission_file cd s inp outp = (True, ws @ [SuccessfullyFixed inp], s1)
        \<and> (\<forall>m\<in>set ws. is_warning m))
   \<or> (\<exists>ws e s1. fix_submission_file cd s inp outp = (False, ws @ [ErrorFixing inp e], s1)
        \<and> (\<forall>m\<in>set ws. is_warning m))"
proof -
  let ?t = "case outp of None \<Rightarrow> inp | Some p \<Rightarrow> p"
  obtain out r where b: "fix_submission_body cd s inp ?t = (out, r)"
    by (cases "fix_submission_body cd s inp ?t")
  from fix_submission_body_msgs[OF b] b show ?thesis
    by (auto simp: fix_submission_file_def Let_def)
qed


lemma batch_loop_step:
  "\<exists>output_file out1 ok out2 s1.
     batch_loop cd ip op (n # rest) (su, fa, out, s)
       = batch_loop cd ip op rest
           (if ok then su + 1 else su, if ok then fa else fa + 1, out @ out1 @ out2, s1)
     \<and> fix_submission_file cd s (joinpath ip n) (Some output_file) = (ok, out2, s1)
     \<and> (\<forall>m\<in>set out1. \<not> is_success m \<and> \<not> is_error m)"
proof -
  obtain is_valid suggested where v: "validate_filename n = (is_valid, suggested)"
    by (cases "validate_filename n")
  define o1 where "o1 = (case op of
               Some o_path \<Rightarrow>
                 if is_valid then (joinpath o_path n, [])
                 else (joinpath o_path suggested, [Renaming n suggested])
             | None \<Rightarrow>
                 if \<not> is_valid
                 then (joinpath ip suggested, [WillRename n suggested])
                 else (joinpath ip n, []))"
  obtain ok out2 s1 where f: "fix_submission_file cd s (joinpath ip n) (Some (fst o1)) = (ok, out2, s1)"
    by (cases "fix_submission_file cd s (joinpath ip n) (Some (fst o1))")
  have "\<forall>m\<in>set (snd o1). \<not> is_success m \<and> \<not> is_error m"
    by (auto simp: o1_def split: option.splits)
  moreover have "batch_loop cd ip op (n # rest) (su, fa, out, s)
       = batch_loop cd ip op rest
           (if ok then su + 1 else su, if ok then fa else fa + 1, out @ snd o1 @ out2, s1)"
    using v f by (cases o1) (auto simp: Let_def o1_def)
  ultimately show ?thesis using f by blast
qed

lemma batch_loop_result:
  "\<exists>su' fa' new s'.
     batch_loop cd ip op names (su, fa, out, s) = (su + su', fa + fa', out @ new, s')
     \<and> su' + fa' = length names
     \<and> su' = length (filter is_success new) \<and> fa' = length (filter is_error new)
     \<and> (\<forall>n\<in>set names. SuccessfullyFixed (joinpath ip n) \<in> set new
                          \<or> (\<exists>e. ErrorFixing (joinpath ip n) e \<in> set new))"
proof (induction names arbitrary: su fa out s)
  case Nil
  show ?case by (rule exI[of _ 0], rule exI[of _ 0], rule exI[of _ "[]"]) simp
next
  case (Cons n rest)
  from batch_loop_step[of cd ip op n rest su fa out s]
  obtain output_file out1 ok out2 s1 where
    step: "batch_loop cd ip op (n # rest) (su, fa, out, s)
       = batch_loop cd ip op rest
           (if ok then su + 1 else su, if ok then fa else fa + 1, out @ out1 @ out2, s1)"
    and f: "fix_submission_file cd s (joinpath ip n) (Some output_file) = (ok, out2, s1)"
    and o1: "\<forall>m\<in>set out1. \<not> is_success m \<and> \<not> is_error m"
    by blast
  from fix_submission_file_cases[of cd s "joinpath ip n" "Some output_file"] f
  obtain ws where
    o2: "(ok \<and> out2 = ws @ [SuccessfullyFixed (joinpath ip n)])
         \<or> (\<not> ok \<and> (\<exists>e. out2 = ws @ [ErrorFixing (joinpath ip n) e]))"
    and w: "\<forall>m\<in>set ws. is_warning m"
    by auto
  have ww: "filter is_success ws = [] \<and> filter is_error ws = []"
  proof -
    from w show ?thesis by (auto simp: filter_empty_conv dest: is_warning_other)
  qed
  have oo: "filter is_success out1 = [] \<and> filter is_error out1 = []"
    using o1 by (auto simp: filter_empty_conv)
  from Cons.IH[of "if ok then su + 1 else su" "if ok then fa else fa + 1" "out @ out1 @ out2" s1]
  obtain su' fa' new s' where
    r: "batch_loop cd ip op rest
           (if ok then su + 1 else su, if ok then fa else fa + 1, out @ out1 @ out2, s1)
        = ((if ok then su + 1 else su) + su', (if ok then fa else fa + 1) + fa',
           (out @ out1 @ out2) @ new, s')"
    and c: "su' + fa' = length rest" "su' = length (filter is_success new)"
           "fa' = length (filter is_error new)"
    and a: "\<forall>n\<in>set rest. SuccessfullyFixed (joinpath ip n) \<in> set new
                          \<or> (\<exists>e. ErrorFixing (joinpath ip n) e \<in> set new)"
    by blast
  let ?new = "out1 @ out2 @ new"
  have 1: "batch_loop cd ip op (n # rest) (su, fa, out, s)
        = (su + ((if ok then 1 else 0) + su'), fa + ((if ok then 0 else 1) + fa'), out @ ?new, s')"
    using step r by simp
  have 2: "((if ok then 1 else 0) + su') + ((if ok then 0 else 1) + fa') = length (n # rest)"
    using c(1) by simp
  have 3: "(if ok then 1 else 0) + su' = length (filter is_success ?new)"
    using o2 ww oo c(2) by auto
  have 4: "(if ok then 0 else 1) + fa' = length (filter is_error ?new)"
    using o2 ww oo c(3) by auto
  have 5: "\<forall>n\<in>set (n # rest). SuccessfullyFixed (joinpath ip n) \<in> set ?new
                          \<or> (\<exists>e. ErrorFixing (joinpath ip n) e \<in> set ?new)"
    using o2 a by auto
  from 1 2 3 4 5 show ?case by blast
qed

subsection \<open>Entries of a normalised record, and cleaning them again\<close>

declare decimal.simps [simp del]

lemma digit_nth: "k < 10 \<Longrightarrow> isdigit (''0123456789'' ! k)"
proof -
  assume "k < 10"
  then have "k \<in> {0, 1, 2, 3, 4, 5, 6, 7, 8, 9}" by auto
  then show ?thesis by (auto simp: isdigit_def)
qed

lemma decimal_digits: "decimal n \<noteq> [] \<and> (\<forall>c\<in>set (decimal n). isdigit c)"
proof (induction n rule: decimal.induct)
  case (1 n)
  show ?case
  proof (cases "n < 10")
    case True
    then have "decimal n = [''0123456789'' ! n]" by (subst decimal.simps) simp
    with True show ?thesis by (simp add: digit_nth)
  next
    case False
    then have "decimal n = decimal (n div 10) @ [''0123456789'' ! (n mod 10)]"
      by (subst decimal.simps) simp
    moreover have "isdigit (''0123456789'' ! (n mod 10))" by (rule digit_nth) simp
    ultimately show ?thesis using "1" False by auto
  qed
qed

lemma str_int_shape: "cleaned_shape (str_int i)"
proof -
  let ?d = "decimal (nat (if i < 0 then - i else i))"
  from decimal_digits[of "nat (if i < 0 then - i else i)"]
  have ne: "?d \<noteq> []" and dg: "\<forall>c\<in>set ?d. isdigit c" by auto
  from ne dg have "isdigit (hd ?d)" "isdigit (last ?d)" by auto
  then have "\<not> isspace (hd ?d)" "last ?d \<noteq> CHR ''.''"
    using isdigit_not_isspace dot_not_isdigit by auto
  with ne show ?thesis
    by (auto simp: cleaned_shape_def str_int_def isspace_def)
qed

lemma py_str_shape: "\<forall>s. v \<noteq> YStr s \<Longrightarrow> cleaned_shape (py_str v)"
proof (cases v)
  case (YInt i)
  then show ?thesis using str_int_shape[of i] by (simp add: py_str_def)
qed (auto simp: py_str_def cleaned_shape_def isspace_def)

lemma cleaned_instructions_shape:
  "i \<in> set (cleaned_instructions xs) \<Longrightarrow> \<exists>t. i = YStr t \<and> cleaned_shape t"
proof (induction xs rule: cleaned_instructions.induct)
  case 1
  then show ?case by simp
next
  case (2 s rest)
  then show ?case
    using clean_instruction_shape[of s]
    by (auto simp: cleaned_shape_def split: option.splits)
qed (use py_str_shape in auto)

lemma clean_instruction_fixed:
  assumes "cleaned_shape t" and "\<not> has_numbering t" and "\<not> isspace (last t)"
  shows "clean_instruction t = Some t"
proof -
  from assms(1) have t: "t \<noteq> []" "\<not> isspace (hd t)" "last t \<noteq> CHR ''.''"
    by (auto simp: cleaned_shape_def)
  have s: "py_strip t = t" using t(1,2) assms(3) by (rule py_strip_id)
  have d: "dropWhile isspace t = t" using t(1,2) by (rule dropWhile_id)
  have "re_sub_numbering t =
      (if takeWhile isdigit t \<noteq> [] \<and> dropWhile isdigit t \<noteq> [] \<and> hd (dropWhile isdigit t) = CHR ''.''
       then dropWhile isspace (tl (dropWhile isdigit t)) else t)"
    unfolding re_sub_numbering_def Let_def d by (rule refl)
  moreover have "\<not> (takeWhile isdigit t \<noteq> [] \<and> dropWhile isdigit t \<noteq> []
                  \<and> hd (dropWhile isdigit t) = CHR ''.'')"
    using assms(2) unfolding has_numbering_def Let_def .
  ultimately have r: "re_sub_numbering t = t" by (simp only: if_False)
  have "rstrip_dots t = t" using t(1,3) by (rule rstrip_dots_id)
  with t(1) show ?thesis by (simp add: clean_instruction_def s r)
qed

lemma cleaned_instructions_fixed:
  "\<forall>i\<in>set ins. \<exists>t. i = YStr t \<and> clean_instruction t = Some t \<Longrightarrow> cleaned_instructions ins = ins"
  by (induction ins) auto

lemma fixed_claim_result:
  "fixed_claim x = Inr c \<Longrightarrow>
     \<exists>cl insts. c = YDict [(YStr ''claim'', cl),
                           (YStr ''instruction'', YList (cleaned_instructions insts))]"
  by (cases x) (auto simp: Let_def split: sum.splits)

lemma fixed_claim_again:
  assumes "cleaned_instructions ins = ins"
  shows "fixed_claim (YDict [(YStr ''claim'', cl), (YStr ''instruction'', YList ins)])
           = Inr (YDict [(YStr ''claim'', cl), (YStr ''instruction'', YList ins)])"
  using assms by (simp add: dict_get_def)

lemma map_exn_id: "\<forall>c\<in>set cs. f c = Inr c \<Longrightarrow> map_exn f cs = Inr cs"
  by (induction cs) auto

lemma fixed_data_literal:
  assumes "fixed_data data = Inr fixed"
  shows "\<exists>d cs. data = YDict d \<and> fixed_claims d = Inr cs \<and> fixed =
              [(YStr ''username'', dict_get d ''username'' (YStr [])),
               (YStr ''paper_title'', dict_get d ''paper_title'' (YStr [])),
               (YStr ''paper_pdf'', dict_get d ''paper_pdf'' (YStr [])),
               (YStr ''identifier'', dict_get d ''identifier'' (YStr [])),
               (YStr ''claim_type'', YStr ''custom_code''),
               (YStr ''code_url'', dict_get d ''code_url'' (YStr NOT_SPECIFIED)),
               (YStr ''data_url'', dict_get d ''data_url'' (YStr NOT_SPECIFIED)),
               (YStr ''claims'', YList cs),
               (YStr ''non_reproducible_claims'',
                  dict_get d ''non_reproducible_claims'' (YList []))]"
  using assms by (cases data) (auto split: sum.splits)

subsection \<open>Length of the cleaned instructions\<close>

lemma cleaned_instructions_length: "length (cleaned_instructions xs) \<le> length xs"
  by (induction xs rule: cleaned_instructions.induct) (auto split: option.splits)

section \<open>The claims\<close>

text \<open>
  C2: for every input record, the record produced by \<open>fix_submission_file\<close> has
  \<open>claim_type\<close> equal to the string \<open>custom_code\<close>, whether \<open>claim_type\<close> was absent
  from the input or present with any value.
\<close>

theorem claim_type_forced:
  assumes "fixed_data data = Inr fixed"
  shows "map_of fixed (YStr ''claim_type'') = Some (YStr ''custom_code'')"
  using assms by (cases data) (auto split: sum.splits)

theorem claim_type_forced_witness:
  "fixed_data (YDict [(YStr ''claim_type'', YStr ''binary''), (YStr ''username'', YStr ''ann'')])
     = Inr [(YStr ''username'', YStr ''ann''), (YStr ''paper_title'', YStr []),
            (YStr ''paper_pdf'', YStr []), (YStr ''identifier'', YStr []),
            (YStr ''claim_type'', YStr ''custom_code''),
            (YStr ''code_url'', YStr ''NOT_SPECIFIED''),
            (YStr ''data_url'', YStr ''NOT_SPECIFIED''), (YStr ''claims'', YList []),
            (YStr ''non_reproducible_claims'', YList [])]
   \<and> map_of [(YStr ''username'', YStr ''ann''), (YStr ''paper_title'', YStr []),
            (YStr ''paper_pdf'', YStr []), (YStr ''identifier'', YStr []),
            (YStr ''claim_type'', YStr ''custom_code''),
            (YStr ''code_url'', YStr ''NOT_SPECIFIED''),
            (YStr ''data_url'', YStr ''NOT_SPECIFIED''), (YStr ''claims'', YList []),
            (YStr ''non_reproducible_claims'', YList [])] (YStr ''claim_type'')
     = Some (YStr ''custom_code'')"
  (is "?A \<and> ?B")
proof -
  have h: ?A
    by (simp add: fixed_claims_def dict_get_def NOT_SPECIFIED_def)
  show ?thesis using h claim_type_forced[OF h] by simp
qed

text \<open>
  C9: for every input record, the record produced by \<open>fix_submission_file\<close> has exactly
  the nine schema keys, in the order of the source, so every other top-level key of the
  input is dropped; and every claim of the output has exactly the keys \<open>claim\<close> and
  \<open>instruction\<close>.
\<close>

theorem output_schema:
  assumes "fixed_data data = Inr fixed"
  shows "map fst fixed =
           map YStr [''username'', ''paper_title'', ''paper_pdf'', ''identifier'', ''claim_type'',
                     ''code_url'', ''data_url'', ''claims'', ''non_reproducible_claims'']
         \<and> (\<exists>cs. map_of fixed (YStr ''claims'') = Some (YList cs)
               \<and> (\<forall>c\<in>set cs. \<exists>kvs. c = YDict kvs
                      \<and> map fst kvs = [YStr ''claim'', YStr ''instruction'']))"
proof -
  from assms obtain d where d: "data = YDict d" by (cases data) auto
  with assms obtain cs where cs: "fixed_claims d = Inr cs" by (auto split: sum.splits)
  have all: "\<forall>c\<in>set cs. \<exists>kvs. c = YDict kvs \<and> map fst kvs = [YStr ''claim'', YStr ''instruction'']"
  proof
    fix c assume "c \<in> set cs"
    from fixed_claims_keys[OF cs this] obtain cl ins where
      "c = YDict [(YStr ''claim'', cl), (YStr ''instruction'', YList ins)]" by auto
    then show "\<exists>kvs. c = YDict kvs \<and> map fst kvs = [YStr ''claim'', YStr ''instruction'']"
      by simp
  qed
  from assms d cs have m: "map_of fixed (YStr ''claims'') = Some (YList cs)" by auto
  from assms d cs have "map fst fixed =
           map YStr [''username'', ''paper_title'', ''paper_pdf'', ''identifier'', ''claim_type'',
                     ''code_url'', ''data_url'', ''claims'', ''non_reproducible_claims'']" by auto
  then show ?thesis using m all by simp
qed

theorem output_schema_witness:
  "fixed_data (YDict [(YStr ''funding'', YStr ''none''),
                      (YStr ''claims'',
                         YList [YDict [(YStr ''claim'', YStr ''X''), (YStr ''score'', YInt 3),
                                       (YStr ''instruction'', YList [YStr ''run'']) ]])])
     = Inr [(YStr ''username'', YStr []), (YStr ''paper_title'', YStr []),
            (YStr ''paper_pdf'', YStr []), (YStr ''identifier'', YStr []),
            (YStr ''claim_type'', YStr ''custom_code''),
            (YStr ''code_url'', YStr ''NOT_SPECIFIED''),
            (YStr ''data_url'', YStr ''NOT_SPECIFIED''),
            (YStr ''claims'',
               YList [YDict [(YStr ''claim'', YStr ''X''),
                             (YStr ''instruction'', YList [YStr ''run''])]]),
            (YStr ''non_reproducible_claims'', YList [])]
   \<and> map fst [(YStr ''username'', YStr []), (YStr ''paper_title'', YStr []),
            (YStr ''paper_pdf'', YStr []), (YStr ''identifier'', YStr []),
            (YStr ''claim_type'', YStr ''custom_code''),
            (YStr ''code_url'', YStr ''NOT_SPECIFIED''),
            (YStr ''data_url'', YStr ''NOT_SPECIFIED''),
            (YStr ''claims'',
               YList [YDict [(YStr ''claim'', YStr ''X''),
                             (YStr ''instruction'', YList [YStr ''run''])]]),
            (YStr ''non_reproducible_claims'', YList [])]
     = map YStr [''username'', ''paper_title'', ''paper_pdf'', ''identifier'', ''claim_type'',
                 ''code_url'', ''data_url'', ''claims'', ''non_reproducible_claims'']"
  (is "?A \<and> ?B")
proof -
  have c: "clean_instruction ''run'' = Some ''run''"
    by (simp add: clean_instruction_def rstrip_dots_def re_sub_numbering_def py_strip_def
        py_lstrip_def py_rstrip_def isspace_def isdigit_def)
  have h: ?A
    by (simp add: fixed_claims_def dict_get_def NOT_SPECIFIED_def c)
  show ?thesis using h output_schema[OF h] by simp
qed

text \<open>
  C10: when the loaded record has a claim whose \<open>instruction\<close> is a scalar that is neither a
  string nor iterable (null, a boolean, a number), \<open>fix_submission_file\<close> fails for the whole
  file: it returns \<open>False\<close>, reports the error with the input file name, and the file
  system, so also the output path, is left as it was.
\<close>

theorem scalar_instruction_fails_file:
  assumes "load_submission cd s input_file = Inr (YDict d)"
      and "map_of d (YStr ''claims'') = Some (YList cs)"
      and "YDict c \<in> set cs"
      and "map_of c (YStr ''instruction'') = Some v"
      and "v = YNull \<or> (\<exists>b. v = YBool b) \<or> (\<exists>i. v = YInt i)"
  shows "\<exists>e. fix_submission_file cd s input_file output_file
              = (False, [ErrorFixing input_file e], s)"
proof -
  from assms(5) have "py_iter v = Inl TypeError" by auto
  with assms(4,5) have "fixed_claim (YDict c) = Inl TypeError"
    by (auto simp: dict_get_def Let_def)
  with assms(3) map_exn_Inl[of "YDict c" cs fixed_claim TypeError]
  obtain e where e: "map_exn fixed_claim cs = Inl e" by auto
  from assms(3) have "cs \<noteq> []" by auto
  with assms(2) e have "fixed_claims d = Inl e" by (simp add: fixed_claims_def)
  then have "fixed_data (YDict d) = Inl e" by simp
  with assms(1) have "fix_submission_body cd s input_file
        (case output_file of None \<Rightarrow> input_file | Some p \<Rightarrow> p) = ([], Inl (e, s))"
    by (simp add: fix_submission_body_def)
  then show ?thesis by (auto simp: fix_submission_file_def Let_def)
qed

theorem scalar_instruction_fails_file_witness:
  "fix_submission_file
     \<lparr>yaml_safe_load = (\<lambda>t. if t = ''claims: [{claim: X, instruction: 5}]''
          then Some (YDict [(YStr ''claims'',
                 YList [YDict [(YStr ''claim'', YStr ''X''), (YStr ''instruction'', YInt 5)]])])
          else None),
       json_load = (\<lambda>t. None), yaml_dump = py_repr\<rparr>
     \<lparr>files = (\<lambda>p. if p = ''a.yaml'' then Some ''claims: [{claim: X, instruction: 5}]'' else None),
       writable = (\<lambda>p. True), write_fault = (\<lambda>p. (OSError, None)), mkdir_ok = (\<lambda>p. True), listing = (\<lambda>p. [])\<rparr>
     ''a.yaml'' None
   = (False, [ErrorFixing ''a.yaml'' TypeError],
      \<lparr>files = (\<lambda>p. if p = ''a.yaml'' then Some ''claims: [{claim: X, instruction: 5}]'' else None),
       writable = (\<lambda>p. True), write_fault = (\<lambda>p. (OSError, None)), mkdir_ok = (\<lambda>p. True), listing = (\<lambda>p. [])\<rparr>)"
  (is "fix_submission_file ?cd ?s ?f None = ?r")
proof -
  have l: "load_submission ?cd ?s ?f = Inr (YDict [(YStr ''claims'',
                 YList [YDict [(YStr ''claim'', YStr ''X''), (YStr ''instruction'', YInt 5)]])])"
    by (simp add: load_submission_def)
  have "\<exists>e. fix_submission_file ?cd ?s ?f None = (False, [ErrorFixing ?f e], ?s)"
    by (rule scalar_instruction_fails_file[OF l, of "[YDict [(YStr ''claim'', YStr ''X''),
          (YStr ''instruction'', YInt 5)]]" "[(YStr ''claim'', YStr ''X''),
          (YStr ''instruction'', YInt 5)]" "YInt 5"]) simp_all
  moreover have "fst (snd (fix_submission_file ?cd ?s ?f None)) = [ErrorFixing ?f TypeError]"
    by (simp add: fix_submission_file_def fix_submission_body_def load_submission_def
        fixed_claims_def dict_get_def Let_def)
  ultimately show ?thesis by auto
qed

text \<open>
  C1: let the file load as a dictionary. When its \<open>code_url\<close> is absent, null, empty,
  whitespace only or the sentinel \<open>NOT_SPECIFIED\<close>, and the file can be written,
  \<open>fix_code_url\<close> returns \<open>True\<close> and rewrites the file with a record that differs from the
  loaded one only in \<open>code_url\<close>, now the fallback URL. When \<open>code_url\<close> is any other
  non-empty string, it returns \<open>False\<close> and leaves the file system as it was.
\<close>

theorem fix_code_url_spec:
  assumes "files s file_path = Some txt"
      and "yaml_safe_load cd txt = Some (YDict d)"
  shows "(map_of d (YStr ''code_url'') = None \<or> map_of d (YStr ''code_url'') = Some YNull
            \<or> (\<exists>w. map_of d (YStr ''code_url'') = Some (YStr w)
                    \<and> ((\<forall>c\<in>set w. isspace c) \<or> w = ''NOT_SPECIFIED''))
          \<longrightarrow> writable s file_path
          \<longrightarrow> (\<exists>d'. fix_code_url cd s file_path
                        = (True, [FixedCodeUrl file_path],
                           write_file s file_path (yaml_dump cd (YDict d')))
                    \<and> map_of d' = (map_of d)(YStr ''code_url''
                          \<mapsto> YStr ''http://www.quantum-espresso.org/download'')))
       \<and> (\<forall>u. map_of d (YStr ''code_url'') = Some (YStr u) \<and> u \<noteq> []
               \<and> (\<exists>c\<in>set u. \<not> isspace c) \<and> u \<noteq> ''NOT_SPECIFIED''
              \<longrightarrow> fix_code_url cd s file_path = (False, [CodeUrlAlreadyValid file_path], s))"
proof (intro conjI impI allI)
  assume p: "map_of d (YStr ''code_url'') = None \<or> map_of d (YStr ''code_url'') = Some YNull
            \<or> (\<exists>w. map_of d (YStr ''code_url'') = Some (YStr w)
                    \<and> ((\<forall>c\<in>set w. isspace c) \<or> w = ''NOT_SPECIFIED''))"
     and w: "writable s file_path"
  let ?v = "dict_get d ''code_url'' (YStr [])"
  from p have "?v = YNull \<or> (\<exists>w. ?v = YStr w \<and> ((\<forall>c\<in>set w. isspace c) \<or> w = NOT_SPECIFIED))"
    by (auto simp: dict_get_def NOT_SPECIFIED_def)
  then have n: "needs_fix ?v = Inr True" by (rule needs_fix_placeholder)
  let ?d' = "dict_set d (YStr ''code_url'') (YStr fallback_url)"
  have "fix_code_url cd s file_path
          = (True, [FixedCodeUrl file_path], write_file s file_path (yaml_dump cd (YDict ?d')))"
    using assms n w by (simp add: fix_code_url_def fix_code_url_body_def)
  moreover have "map_of ?d' = (map_of d)(YStr ''code_url''
                          \<mapsto> YStr ''http://www.quantum-espresso.org/download'')"
    by (simp add: map_of_dict_set fallback_url_def)
  ultimately show "\<exists>d'. fix_code_url cd s file_path
                        = (True, [FixedCodeUrl file_path],
                           write_file s file_path (yaml_dump cd (YDict d')))
                    \<and> map_of d' = (map_of d)(YStr ''code_url''
                          \<mapsto> YStr ''http://www.quantum-espresso.org/download'')"
    by blast
next
  fix u
  assume a: "map_of d (YStr ''code_url'') = Some (YStr u) \<and> u \<noteq> []
               \<and> (\<exists>c\<in>set u. \<not> isspace c) \<and> u \<noteq> ''NOT_SPECIFIED''"
  then have "needs_fix (YStr u) = Inr False"
    by (intro needs_fix_valid) (auto simp: NOT_SPECIFIED_def)
  moreover from a have "dict_get d ''code_url'' (YStr []) = YStr u" by (simp add: dict_get_def)
  ultimately show "fix_code_url cd s file_path = (False, [CodeUrlAlreadyValid file_path], s)"
    using assms by (simp add: fix_code_url_def fix_code_url_body_def)
qed

theorem fix_code_url_spec_witness:
  "fst (fix_code_url
     \<lparr>yaml_safe_load = (\<lambda>t. if t = ''code_url: NOT_SPECIFIED''
          then Some (YDict [(YStr ''code_url'', YStr ''NOT_SPECIFIED'')]) else None),
       json_load = (\<lambda>t. None), yaml_dump = py_repr\<rparr>
     \<lparr>files = (\<lambda>p. if p = ''a.yaml'' then Some ''code_url: NOT_SPECIFIED'' else None),
       writable = (\<lambda>p. True), write_fault = (\<lambda>p. (OSError, None)), mkdir_ok = (\<lambda>p. True), listing = (\<lambda>p. [])\<rparr>
     ''a.yaml'') = True
   \<and> fix_code_url
     \<lparr>yaml_safe_load = (\<lambda>t. if t = ''code_url: https://x.org''
          then Some (YDict [(YStr ''code_url'', YStr ''https://x.org'')]) else None),
       json_load = (\<lambda>t. None), yaml_dump = py_repr\<rparr>
     \<lparr>files = (\<lambda>p. if p = ''b.yaml'' then Some ''code_url: https://x.org'' else None),
       writable = (\<lambda>p. False), write_fault = (\<lambda>p. (OSError, None)), mkdir_ok = (\<lambda>p. True), listing = (\<lambda>p. [])\<rparr>
     ''b.yaml''
     = (False, [CodeUrlAlreadyValid ''b.yaml''],
        \<lparr>files = (\<lambda>p. if p = ''b.yaml'' then Some ''code_url: https://x.org'' else None),
         writable = (\<lambda>p. False), write_fault = (\<lambda>p. (OSError, None)), mkdir_ok = (\<lambda>p. True), listing = (\<lambda>p. [])\<rparr>)"
  (is "fst (fix_code_url ?cd1 ?s1 ?a) = True \<and> fix_code_url ?cd2 ?s2 ?b = ?r")
proof
  have f: "files ?s1 ?a = Some ''code_url: NOT_SPECIFIED''" by simp
  have l: "yaml_safe_load ?cd1 ''code_url: NOT_SPECIFIED''
             = Some (YDict [(YStr ''code_url'', YStr ''NOT_SPECIFIED'')])" by simp
  from fix_code_url_spec[OF f l] show "fst (fix_code_url ?cd1 ?s1 ?a) = True"
    by auto
next
  have f: "files ?s2 ?b = Some ''code_url: https://x.org''" by simp
  have l: "yaml_safe_load ?cd2 ''code_url: https://x.org''
             = Some (YDict [(YStr ''code_url'', YStr ''https://x.org'')])" by simp
  have "map_of [(YStr ''code_url'', YStr ''https://x.org'')] (YStr ''code_url'')
          = Some (YStr ''https://x.org'') \<and> ''https://x.org'' \<noteq> []
        \<and> (\<exists>c\<in>set ''https://x.org''. \<not> isspace c) \<and> ''https://x.org'' \<noteq> ''NOT_SPECIFIED''"
    by (simp add: isspace_def)
  with fix_code_url_spec[OF f l] show "fix_code_url ?cd2 ?s2 ?b = ?r"
    by blast
qed

text \<open>
  C5 (as amended): a claim whose \<open>instruction\<close> is a single string is normalised to a claim
  whose \<open>instruction\<close> is the one-element list of the cleaned string when the cleaned string
  is not empty, and the empty list when the cleaning leaves nothing.
\<close>

theorem lone_string_instruction:
  assumes "map_of c (YStr ''instruction'') = Some (YStr s)"
  shows "fixed_claim (YDict c) =
           Inr (YDict [(YStr ''claim'', dict_get c ''claim'' (YStr [])),
                       (YStr ''instruction'',
                          YList (case clean_instruction s of Some t \<Rightarrow> [YStr t] | None \<Rightarrow> []))])"
  using assms by (simp add: dict_get_def split: option.splits)

theorem lone_string_instruction_witness:
  "fixed_claim (YDict [(YStr ''claim'', YStr ''X''), (YStr ''instruction'', YStr ''1. Do thing.'')])
     = Inr (YDict [(YStr ''claim'', YStr ''X''), (YStr ''instruction'', YList [YStr ''Do thing''])])"
proof -
  have c: "clean_instruction ''1. Do thing.'' = Some ''Do thing''"
    by (simp add: clean_instruction_def rstrip_dots_def re_sub_numbering_def py_strip_def
        py_lstrip_def py_rstrip_def isspace_def isdigit_def)
  show ?thesis
    using lone_string_instruction[of "[(YStr ''claim'', YStr ''X''),
        (YStr ''instruction'', YStr ''1. Do thing.'')]" "''1. Do thing.''"]
    by (simp add: c dict_get_def)
qed

text \<open>
  The claim as first stated promises a one-element list for every non-empty string; the
  one-character string of a period is cleaned to nothing and gives the empty list.
\<close>

theorem lone_string_instruction_counterexample:
  "fixed_claim (YDict [(YStr ''claim'', YStr ''X''), (YStr ''instruction'', YStr ''.'')])
     = Inr (YDict [(YStr ''claim'', YStr ''X''), (YStr ''instruction'', YList [])])"
  by (simp add: dict_get_def clean_instruction_def rstrip_dots_def re_sub_numbering_def
      py_strip_def py_lstrip_def py_rstrip_def isspace_def isdigit_def)

text \<open>
  C4 (as amended): an instruction entry made of whitespace, digits, a period, whitespace,
  a text and an optional final period is normalised to exactly the text, provided the text
  is not empty, does not start with whitespace, does not end with a period and, when no
  period follows it, does not end with whitespace.
\<close>

theorem numbered_entry_cleaned:
  assumes ws1: "\<forall>c\<in>set ws1. isspace c"
      and ds: "ds \<noteq> []" "\<forall>c\<in>set ds. isdigit c"
      and ws2: "\<forall>c\<in>set ws2. isspace c"
      and tx: "txt \<noteq> []" "\<not> isspace (hd txt)" "last txt \<noteq> CHR ''.''"
      and dot: "dot \<or> \<not> isspace (last txt)"
  shows "clean_instruction (numbered_entry ws1 ds ws2 txt dot) = Some txt
       \<and> cleaned_instructions [YStr (numbered_entry ws1 ds ws2 txt dot)] = [YStr txt]"
proof -
  let ?p = "if dot then ''.'' else []"
  let ?rest = "ds @ CHR ''.'' # ws2 @ txt @ ?p"
  have e: "numbered_entry ws1 ds ws2 txt dot = ws1 @ ?rest"
    by (simp add: numbered_entry_def)
  have rne: "?rest \<noteq> []" using ds by simp
  have "hd ?rest = hd ds" using ds by simp
  then have hdr: "\<not> isspace (hd ?rest)" using ds isdigit_not_isspace by (cases ds) auto
  have lastr: "\<not> isspace (last ?rest)" using tx dot by (auto simp: dot_not_isspace)
  have "py_lstrip (ws1 @ ?rest) = ?rest"
    unfolding py_lstrip_def using ws1 rne hdr by (rule dropWhile_all_nonempty)
  then have strip: "py_strip (ws1 @ ?rest) = ?rest"
    using rne lastr by (simp add: py_strip_def py_rstrip_def rev_dropWhile_rev_id del: rev_append rev.simps)
  have s1: "dropWhile isspace ?rest = ?rest" using rne hdr by (rule dropWhile_id)
  have tk: "takeWhile isdigit ?rest = ds"
    using ds(2) dot_not_isdigit by (rule takeWhile_all_then)
  have dr: "dropWhile isdigit ?rest = CHR ''.'' # ws2 @ txt @ ?p"
    using ds(2) dot_not_isdigit by (rule dropWhile_all_then)
  have tp: "txt @ ?p \<noteq> []" "\<not> isspace (hd (txt @ ?p))" using tx by auto
  have "dropWhile isspace (ws2 @ (txt @ ?p)) = txt @ ?p"
    using ws2 tp by (rule dropWhile_all_nonempty)
  moreover have "re_sub_numbering ?rest =
      (if ds \<noteq> [] \<and> CHR ''.'' # ws2 @ txt @ ?p \<noteq> [] \<and> hd (CHR ''.'' # ws2 @ txt @ ?p) = CHR ''.''
       then dropWhile isspace (tl (CHR ''.'' # ws2 @ txt @ ?p)) else ?rest)"
    unfolding re_sub_numbering_def Let_def s1 tk dr by (rule refl)
  ultimately have sub: "re_sub_numbering ?rest = txt @ ?p"
    using ds(1) by simp
  have "rstrip_dots (txt @ ?p) = txt"
  proof (cases dot)
    case True
    have "rstrip_dots (txt @ ''.'') = rstrip_dots txt" by (simp add: rstrip_dots_def)
    then show ?thesis using True tx by (simp add: rstrip_dots_id)
  next
    case False
    then show ?thesis using tx by (simp add: rstrip_dots_id)
  qed
  then have "clean_instruction (numbered_entry ws1 ds ws2 txt dot) = Some txt"
    using tx(1) by (simp add: clean_instruction_def e strip sub Let_def del: append_assoc)
  then show ?thesis by simp
qed

theorem numbered_entry_cleaned_witness:
  "clean_instruction (numbered_entry '' '' ''12'' ''  '' ''Run the script'' True)
     = Some ''Run the script''
   \<and> cleaned_instructions [YStr (numbered_entry '' '' ''12'' ''  '' ''Run the script'' True)]
     = [YStr ''Run the script'']"
  by (rule numbered_entry_cleaned) (simp_all add: isspace_def isdigit_def)

text \<open>
  Without the conditions on the text the claim fails: in \<^verbatim>\<open>1. a..\<close> the text \<^verbatim>\<open>a.\<close> is
  followed by the optional period, and the entry is cleaned to \<^verbatim>\<open>a\<close>.
\<close>

theorem numbered_entry_text_counterexample:
  "numbered_entry [] ''1'' '' '' ''a.'' True = ''1. a..''
   \<and> clean_instruction ''1. a..'' = Some ''a''
   \<and> clean_instruction ''1. a..'' \<noteq> Some ''a.''"
  by (simp add: numbered_entry_def clean_instruction_def rstrip_dots_def re_sub_numbering_def
      py_strip_def py_lstrip_def py_rstrip_def isspace_def isdigit_def)

text \<open>
  C6: \<open>validate_filename\<close> at a name that ends in a newline. The newline is not an allowed
  character, yet the name is accepted and returned unchanged, because \<^verbatim>\<open>$\<close> also matches
  just before a final newline.
\<close>

theorem trailing_newline_accepted:
  "validate_filename (''report.yaml'' @ [CHR 0x0A]) = (True, ''report.yaml'' @ [CHR 0x0A])
   \<and> \<not> allowed_char (CHR 0x0A)"
  by (simp add: validate_filename_def basename_def re_match_allowed_def allowed_char_def)

text \<open>
  C8 (as amended): let the record load, let its claims normalise without error, let every
  URL field of the record hold a string or a value that counts as false, and let the
  target be writable. Then a URL field that is present, not empty, not the sentinel and
  starts with neither \<^verbatim>\<open>http://\<close> nor \<^verbatim>\<open>https://\<close> only adds a warning: the
  normalised record is written to the target and \<open>True\<close> is returned.
\<close>

theorem malformed_url_only_warns:
  assumes load: "load_submission cd s input_file = Inr (YDict d)"
      and fx: "fixed_data (YDict d) = Inr fixed"
      and strs: "\<forall>g\<in>set url_fields. \<forall>v. map_of d (YStr g) = Some v
                   \<longrightarrow> \<not> truthy v \<or> (\<exists>u. v = YStr u)"
      and wr: "writable s (case output_file of None \<Rightarrow> input_file | Some p \<Rightarrow> p)"
      and f: "f \<in> set url_fields" "map_of d (YStr f) = Some (YStr u)" "u \<noteq> []"
             "u \<noteq> ''NOT_SPECIFIED''" "\<not> py_startswith u ''http://''"
             "\<not> py_startswith u ''https://''"
  shows "\<exists>ws. fix_submission_file cd s input_file output_file
               = (True, ws @ [SuccessfullyFixed input_file],
                  write_file s (case output_file of None \<Rightarrow> input_file | Some p \<Rightarrow> p)
                    (yaml_dump cd (YDict fixed)))
             \<and> UrlWarning f \<in> set ws"
proof -
  note m = fixed_data_url_fields[OF fx]
  have ok: "\<forall>g\<in>set url_fields. \<exists>w. check_url fixed g = Inr w"
  proof
    fix g assume g: "g \<in> set url_fields"
    then obtain v where v: "map_of fixed (YStr g) = Some v"
      and dv: "map_of d (YStr g) = Some v \<or> map_of d (YStr g) = None \<and> (\<exists>u. v = YStr u)"
      using m by (auto simp: url_fields_def dict_get_def split: option.splits)
    from dv strs g have "\<not> truthy v \<or> (\<exists>u. v = YStr u)" by auto
    with v show "\<exists>w. check_url fixed g = Inr w" by (rule check_url_no_raise)
  qed
  from f(1,2) m have "map_of fixed (YStr f) = Some (YStr u)"
    by (auto simp: url_fields_def dict_get_def)
  with f(3-6) have "check_url fixed f = Inr [UrlWarning f]"
    by (simp add: check_url_string NOT_SPECIFIED_def)
  with ok f(1) obtain ws where ws: "validate_urls fixed url_fields = (ws, None)"
    and w: "UrlWarning f \<in> set ws"
    using validate_urls_warns[of url_fields fixed f] by auto
  from load fx ws wr have "fix_submission_file cd s input_file output_file
               = (True, ws @ [SuccessfullyFixed input_file],
                  write_file s (case output_file of None \<Rightarrow> input_file | Some p \<Rightarrow> p)
                    (yaml_dump cd (YDict fixed)))"
    by (simp add: fix_submission_file_def fix_submission_body_def Let_def)
  with w show ?thesis by blast
qed

theorem malformed_url_only_warns_witness:
  "fst (fix_submission_file
     \<lparr>yaml_safe_load = (\<lambda>t. if t = ''paper_pdf: ftp://x.org/p.pdf''
          then Some (YDict [(YStr ''paper_pdf'', YStr ''ftp://x.org/p.pdf'')]) else None),
       json_load = (\<lambda>t. None), yaml_dump = py_repr\<rparr>
     \<lparr>files = (\<lambda>p. if p = ''a.yaml'' then Some ''paper_pdf: ftp://x.org/p.pdf'' else None),
       writable = (\<lambda>p. True), write_fault = (\<lambda>p. (OSError, None)), mkdir_ok = (\<lambda>p. True), listing = (\<lambda>p. [])\<rparr>
     ''a.yaml'' None) = True
   \<and> UrlWarning ''paper_pdf'' \<in> set (fst (snd (fix_submission_file
     \<lparr>yaml_safe_load = (\<lambda>t. if t = ''paper_pdf: ftp://x.org/p.pdf''
          then Some (YDict [(YStr ''paper_pdf'', YStr ''ftp://x.org/p.pdf'')]) else None),
       json_load = (\<lambda>t. None), yaml_dump = py_repr\<rparr>
     \<lparr>files = (\<lambda>p. if p = ''a.yaml'' then Some ''paper_pdf: ftp://x.org/p.pdf'' else None),
       writable = (\<lambda>p. True), write_fault = (\<lambda>p. (OSError, None)), mkdir_ok = (\<lambda>p. True), listing = (\<lambda>p. [])\<rparr>
     ''a.yaml'' None)))"
  (is "fst (fix_submission_file ?cd ?s ?a None) = True \<and> _")
proof -
  let ?d = "[(YStr ''paper_pdf'', YStr ''ftp://x.org/p.pdf'')]"
  let ?fixed = "[(YStr ''username'', YStr []), (YStr ''paper_title'', YStr []),
            (YStr ''paper_pdf'', YStr ''ftp://x.org/p.pdf''), (YStr ''identifier'', YStr []),
            (YStr ''claim_type'', YStr ''custom_code''),
            (YStr ''code_url'', YStr ''NOT_SPECIFIED''),
            (YStr ''data_url'', YStr ''NOT_SPECIFIED''), (YStr ''claims'', YList []),
            (YStr ''non_reproducible_claims'', YList [])]"
  have l: "load_submission ?cd ?s ?a = Inr (YDict ?d)" by (simp add: load_submission_def)
  have fx: "fixed_data (YDict ?d) = Inr ?fixed"
    by (simp add: fixed_claims_def dict_get_def NOT_SPECIFIED_def)
  have strs: "\<forall>g\<in>set url_fields. \<forall>v. map_of ?d (YStr g) = Some v
                   \<longrightarrow> \<not> truthy v \<or> (\<exists>u. v = YStr u)"
    by (simp add: url_fields_def)
  have wr: "writable ?s (case None of None \<Rightarrow> ?a | Some p \<Rightarrow> p)" by simp
  have f: "''paper_pdf'' \<in> set url_fields" by (simp add: url_fields_def)
  have m: "map_of ?d (YStr ''paper_pdf'') = Some (YStr ''ftp://x.org/p.pdf'')" by simp
  have "\<exists>ws. fix_submission_file ?cd ?s ?a None
               = (True, ws @ [SuccessfullyFixed ?a],
                  write_file ?s (case None of None \<Rightarrow> ?a | Some p \<Rightarrow> p)
                    (yaml_dump ?cd (YDict ?fixed)))
             \<and> UrlWarning ''paper_pdf'' \<in> set ws"
    by (rule malformed_url_only_warns[OF l fx strs wr f m])
       (simp_all add: py_startswith_def)
  then show ?thesis by auto
qed

text \<open>
  The claim as first stated covers every value that does not start with \<^verbatim>\<open>http://\<close>. A
  number is such a value, and there \<^verbatim>\<open>url.startswith\<close> raises: the file fails and
  nothing is written.
\<close>

theorem non_string_url_counterexample:
  "fix_submission_file
     \<lparr>yaml_safe_load = (\<lambda>t. if t = ''paper_pdf: 12345''
          then Some (YDict [(YStr ''paper_pdf'', YInt 12345)]) else None),
       json_load = (\<lambda>t. None), yaml_dump = py_repr\<rparr>
     \<lparr>files = (\<lambda>p. if p = ''a.yaml'' then Some ''paper_pdf: 12345'' else None),
       writable = (\<lambda>p. True), write_fault = (\<lambda>p. (OSError, None)), mkdir_ok = (\<lambda>p. True), listing = (\<lambda>p. [])\<rparr>
     ''a.yaml'' None
   = (False, [ErrorFixing ''a.yaml'' AttributeError],
      \<lparr>files = (\<lambda>p. if p = ''a.yaml'' then Some ''paper_pdf: 12345'' else None),
       writable = (\<lambda>p. True), write_fault = (\<lambda>p. (OSError, None)), mkdir_ok = (\<lambda>p. True), listing = (\<lambda>p. [])\<rparr>)"
  by (simp add: fix_submission_file_def fix_submission_body_def load_submission_def
      fixed_claims_def dict_get_def url_fields_def check_url_def Let_def)

text \<open>
  C7 (as amended): every call of \<open>fix_submission_file\<close> returns a boolean with its last
  line naming the input file: \<open>True\<close>, or \<open>False\<close> when an exception left the body. That
  holds for an exception while loading, while transforming the record or checking its
  URLs, and while writing; the first three leave every file as it was, and a failed write
  leaves what \<open>write_failure\<close> says, which may be a truncated target. Once
  \<open>batch_fix_submissions\<close> has made its output directory and found at least one file, it
  ends normally for every state of the files: each file found is reported as fixed or as
  failed, and the run ends with the two counts, which are the numbers of the two kinds of
  line and add up to the number of files.
\<close>

theorem per_file_errors_contained:
  assumes "names = glob_names s d ''.yaml'' @ glob_names s d ''.yml'' @ glob_names s d ''.json''"
      and "names \<noteq> []"
      and "\<forall>o_dir. odir = Some o_dir \<and> o_dir \<noteq> [] \<longrightarrow> mkdir_ok s o_dir"
  shows "(\<exists>successful failed out s'.
            batch_fix_submissions cd s d odir = Inr (out @ [BatchComplete successful failed], s')
            \<and> successful + failed = length names
            \<and> successful = length (filter is_success out)
            \<and> failed = length (filter is_error out)
            \<and> (\<forall>n\<in>set names. SuccessfullyFixed (joinpath d n) \<in> set out
                               \<or> (\<exists>e. ErrorFixing (joinpath d n) e \<in> set out)))
       \<and> (\<forall>s0 inp outp.
            (\<exists>ws s1. fix_submission_file cd s0 inp outp
                        = (True, ws @ [SuccessfullyFixed inp], s1))
            \<or> (\<exists>ws e s1. fix_submission_file cd s0 inp outp
                        = (False, ws @ [ErrorFixing inp e], s1)))
       \<and> (\<forall>s0 inp outp e.
            load_submission cd s0 inp = Inl e
            \<longrightarrow> fix_submission_file cd s0 inp outp = (False, [ErrorFixing inp e], s0))
       \<and> (\<forall>s0 inp outp data e.
            load_submission cd s0 inp = Inr data \<and> fixed_data data = Inl e
            \<longrightarrow> fix_submission_file cd s0 inp outp = (False, [ErrorFixing inp e], s0))
       \<and> (\<forall>s0 inp outp data fixed ws e.
            load_submission cd s0 inp = Inr data \<and> fixed_data data = Inr fixed
            \<and> validate_urls fixed url_fields = (ws, Some e)
            \<longrightarrow> fix_submission_file cd s0 inp outp = (False, ws @ [ErrorFixing inp e], s0))
       \<and> (\<forall>s0 inp outp data fixed ws.
            load_submission cd s0 inp = Inr data \<and> fixed_data data = Inr fixed
            \<and> validate_urls fixed url_fields = (ws, None)
            \<and> \<not> writable s0 (case outp of None \<Rightarrow> inp | Some p \<Rightarrow> p)
            \<longrightarrow> fix_submission_file cd s0 inp outp
                = (False,
                   ws @ [ErrorFixing inp
                           (fst (write_failure s0 (case outp of None \<Rightarrow> inp | Some p \<Rightarrow> p)))],
                   snd (write_failure s0 (case outp of None \<Rightarrow> inp | Some p \<Rightarrow> p))))"
proof (intro conjI)
  let ?op = "case odir of Some o_dir \<Rightarrow> if o_dir \<noteq> [] then Some o_dir else None | None \<Rightarrow> None"
  have mk: "\<not> (case ?op of Some o_path \<Rightarrow> \<not> mkdir_ok s o_path | None \<Rightarrow> False)"
    using assms(3) by (auto split: option.splits)
  from batch_loop_result[of cd d ?op names 0 0 "[]" s]
  obtain su fa new s' where
    r: "batch_loop cd d ?op names (0, 0, [], s) = (su, fa, new, s')"
    and c: "su + fa = length names" "su = length (filter is_success new)"
           "fa = length (filter is_error new)"
           "\<forall>n\<in>set names. SuccessfullyFixed (joinpath d n) \<in> set new
                          \<or> (\<exists>e. ErrorFixing (joinpath d n) e \<in> set new)"
    by auto
  have "batch_fix_submissions cd s d odir = Inr (new @ [BatchComplete su fa], s')"
    using mk r assms(1,2) unfolding batch_fix_submissions_def Let_def
    by (simp del: batch_loop.simps)
  with c show "\<exists>successful failed out s'.
            batch_fix_submissions cd s d odir = Inr (out @ [BatchComplete successful failed], s')
            \<and> successful + failed = length names
            \<and> successful = length (filter is_success out)
            \<and> failed = length (filter is_error out)
            \<and> (\<forall>n\<in>set names. SuccessfullyFixed (joinpath d n) \<in> set out
                               \<or> (\<exists>e. ErrorFixing (joinpath d n) e \<in> set out))"
    by blast
next
  show "\<forall>s0 inp outp.
            (\<exists>ws s1. fix_submission_file cd s0 inp outp
                        = (True, ws @ [SuccessfullyFixed inp], s1))
            \<or> (\<exists>ws e s1. fix_submission_file cd s0 inp outp
                        = (False, ws @ [ErrorFixing inp e], s1))"
  proof (intro allI)
    fix s0 :: fs and inp :: path and outp :: "path option"
    from fix_submission_file_cases[of cd s0 inp outp]
    show "(\<exists>ws s1. fix_submission_file cd s0 inp outp
                        = (True, ws @ [SuccessfullyFixed inp], s1))
            \<or> (\<exists>ws e s1. fix_submission_file cd s0 inp outp
                        = (False, ws @ [ErrorFixing inp e], s1))"
      by auto
  qed
next
  show "\<forall>s0 inp outp e.
            load_submission cd s0 inp = Inl e
            \<longrightarrow> fix_submission_file cd s0 inp outp = (False, [ErrorFixing inp e], s0)"
    by (simp add: fix_submission_file_def fix_submission_body_def Let_def)
next
  show "\<forall>s0 inp outp data e.
            load_submission cd s0 inp = Inr data \<and> fixed_data data = Inl e
            \<longrightarrow> fix_submission_file cd s0 inp outp = (False, [ErrorFixing inp e], s0)"
    by (simp add: fix_submission_file_def fix_submission_body_def Let_def)
next
  show "\<forall>s0 inp outp data fixed ws e.
            load_submission cd s0 inp = Inr data \<and> fixed_data data = Inr fixed
            \<and> validate_urls fixed url_fields = (ws, Some e)
            \<longrightarrow> fix_submission_file cd s0 inp outp = (False, ws @ [ErrorFixing inp e], s0)"
    by (simp add: fix_submission_file_def fix_submission_body_def Let_def)
next
  show "\<forall>s0 inp outp data fixed ws.
            load_submission cd s0 inp = Inr data \<and> fixed_data data = Inr fixed
            \<and> validate_urls fixed url_fields = (ws, None)
            \<and> \<not> writable s0 (case outp of None \<Rightarrow> inp | Some p \<Rightarrow> p)
            \<longrightarrow> fix_submission_file cd s0 inp outp
                = (False,
                   ws @ [ErrorFixing inp
                           (fst (write_failure s0 (case outp of None \<Rightarrow> inp | Some p \<Rightarrow> p)))],
                   snd (write_failure s0 (case outp of None \<Rightarrow> inp | Some p \<Rightarrow> p)))"
    by (simp add: fix_submission_file_def fix_submission_body_def Let_def split: prod.splits)
qed


theorem per_file_errors_contained_witness:
  "(case batch_fix_submissions
     \<lparr>yaml_safe_load = (\<lambda>t. if t = ''username: ann'' then Some (YDict [(YStr ''username'', YStr ''ann'')])
                             else None),
       json_load = (\<lambda>t. None), yaml_dump = (\<lambda>v. ''dumped'')\<rparr>
     \<lparr>files = (\<lambda>p. if p = ''subs/a.yaml'' then Some ''username: ann''
                     else if p = ''subs/b.yml'' then Some ''{{''
                     else if p = ''subs/c.json'' then Some ''username: ann'' else None),
       writable = (\<lambda>p. p \<noteq> ''subs/c.json''), write_fault = (\<lambda>p. (OSError, Some [])),
       mkdir_ok = (\<lambda>p. True),
       listing = (\<lambda>p. if p = ''subs'' then [''a.yaml'', ''notes.txt'', ''b.yml'', ''c.json''] else [])\<rparr>
     ''subs'' None of
      Inl e \<Rightarrow> None
    | Inr (out, s') \<Rightarrow> Some (out, files s' ''subs/a.yaml'', files s' ''subs/c.json''))
   = Some ([SuccessfullyFixed ''subs/a.yaml'', ErrorFixing ''subs/b.yml'' JSONDecodeError,
            ErrorFixing ''subs/c.json'' OSError, BatchComplete 1 2],
           Some ''dumped'', Some [])"
  (is "(case batch_fix_submissions ?cd ?s ?d None of Inl e \<Rightarrow> None
        | Inr (out, s') \<Rightarrow> Some (out, files s' ?a, files s' ?c)) = Some (?r, _, _)")
proof -
  let ?b = "''subs/b.yml''"
  let ?s1 = "write_file ?s ?a ''dumped''"
  let ?s2 = "write_file ?s1 ?c []"
  let ?fixed = "[(YStr ''username'', YStr ''ann''), (YStr ''paper_title'', YStr []),
            (YStr ''paper_pdf'', YStr []), (YStr ''identifier'', YStr []),
            (YStr ''claim_type'', YStr ''custom_code''),
            (YStr ''code_url'', YStr ''NOT_SPECIFIED''),
            (YStr ''data_url'', YStr ''NOT_SPECIFIED''), (YStr ''claims'', YList []),
            (YStr ''non_reproducible_claims'', YList [])]"
  have n: "[''a.yaml'', ''b.yml'', ''c.json''] = glob_names ?s ?d ''.yaml'' @ glob_names ?s ?d ''.yml''
             @ glob_names ?s ?d ''.json''"
    by (simp add: glob_names_def py_endswith_def)
  have n0: "[''a.yaml'', ''b.yml'', ''c.json''] \<noteq> []" by simp
  have mk: "\<forall>o_dir. None = Some o_dir \<and> o_dir \<noteq> [] \<longrightarrow> mkdir_ok ?s o_dir" by simp
  note th = per_file_errors_contained[OF n n0 mk, of ?cd]
  note batch = th[THEN conjunct1]
  note on_load = th[THEN conjunct2, THEN conjunct2, THEN conjunct1, rule_format]
  note on_write = th[THEN conjunct2, THEN conjunct2, THEN conjunct2, THEN conjunct2,
                     THEN conjunct2, THEN spec, of ?s1, THEN spec, of ?c, THEN spec, of "Some ?c",
                     THEN spec, of "YDict [(YStr ''username'', YStr ''ann'')]",
                     THEN spec, of ?fixed, THEN spec, of "[]", THEN mp]
  from batch obtain successful failed out s' where
    b: "batch_fix_submissions ?cd ?s ?d None = Inr (out @ [BatchComplete successful failed], s')"
    by (elim exE conjE)
  have fa: "fix_submission_file ?cd ?s ?a (Some ?a) = (True, [SuccessfullyFixed ?a], ?s1)"
    by (simp add: fix_submission_file_def fix_submission_body_def load_submission_def
        fixed_claims_def dict_get_def url_fields_def check_url_def NOT_SPECIFIED_def Let_def)
  have lb: "load_submission ?cd ?s1 ?b = Inl JSONDecodeError"
    by (simp add: load_submission_def write_file_def)
  have fb: "fix_submission_file ?cd ?s1 ?b (Some ?b)
      = (False, [ErrorFixing ?b JSONDecodeError], ?s1)"
    using lb by (rule on_load)
  have lc: "load_submission ?cd ?s1 ?c = Inr (YDict [(YStr ''username'', YStr ''ann'')])"
    by (simp add: load_submission_def write_file_def)
  have xc: "fixed_data (YDict [(YStr ''username'', YStr ''ann'')]) = Inr ?fixed"
    by (simp add: fixed_claims_def dict_get_def NOT_SPECIFIED_def)
  have vc: "validate_urls ?fixed url_fields = ([], None)"
    by (simp add: url_fields_def check_url_def NOT_SPECIFIED_def)
  have wc: "\<not> writable ?s1 (case Some ?c of None \<Rightarrow> ?c | Some p \<Rightarrow> p)"
    by (simp add: write_file_def)
  have "fix_submission_file ?cd ?s1 ?c (Some ?c)
      = (False, [] @ [ErrorFixing ?c (fst (write_failure ?s1 (case Some ?c of None \<Rightarrow> ?c | Some p \<Rightarrow> p)))],
         snd (write_failure ?s1 (case Some ?c of None \<Rightarrow> ?c | Some p \<Rightarrow> p)))"
    by (rule on_write) (intro conjI lc xc vc wc)
  moreover have "write_failure ?s1 ?c = (OSError, ?s2)"
    by (simp add: write_failure_def write_file_def)
  ultimately have fc: "fix_submission_file ?cd ?s1 ?c (Some ?c)
      = (False, [ErrorFixing ?c OSError], ?s2)"
    by simp
  have va: "validate_filename ''a.yaml'' = (True, ''a.yaml'')"
    by (simp add: validate_filename_def basename_def re_match_allowed_def allowed_char_def)
  have vb: "validate_filename ''b.yml'' = (True, ''b.yml'')"
    by (simp add: validate_filename_def basename_def re_match_allowed_def allowed_char_def)
  have vcn: "validate_filename ''c.json'' = (True, ''c.json'')"
    by (simp add: validate_filename_def basename_def re_match_allowed_def allowed_char_def)
  have ja: "joinpath ''subs'' ''a.yaml'' = ?a" by (simp add: joinpath_def)
  have jb: "joinpath ''subs'' ''b.yml'' = ?b" by (simp add: joinpath_def)
  have jc: "joinpath ''subs'' ''c.json'' = ?c" by (simp add: joinpath_def)
  have "batch_loop ?cd ?d None [''a.yaml'', ''b.yml'', ''c.json''] (0, 0, [], ?s)
      = (1, 2, [SuccessfullyFixed ?a, ErrorFixing ?b JSONDecodeError, ErrorFixing ?c OSError], ?s2)"
    by (simp add: va vb vcn ja jb jc fa fb fc Let_def)
  then have "batch_fix_submissions ?cd ?s ?d None = Inr (?r, ?s2)"
    unfolding batch_fix_submissions_def Let_def n[symmetric]
    by (simp del: batch_loop.simps)
  moreover have "files ?s2 ?a = Some ''dumped''" "files ?s2 ?c = Some []"
    by (simp_all add: write_file_def)
  ultimately show ?thesis using b by simp
qed

text \<open>
  The conditions are needed. With no submission file in the directory the driver prints one
  line and returns without the counts, and when the output directory cannot be made the
  exception of \<^verbatim>\<open>mkdir\<close> leaves the driver.
\<close>

theorem batch_without_counts_counterexample:
  "batch_fix_submissions
     \<lparr>yaml_safe_load = (\<lambda>t. None), json_load = (\<lambda>t. None), yaml_dump = (\<lambda>v. ''dumped'')\<rparr>
     \<lparr>files = (\<lambda>p. None), writable = (\<lambda>p. True), write_fault = (\<lambda>p. (OSError, None)), mkdir_ok = (\<lambda>p. True),
       listing = (\<lambda>p. if p = ''subs'' then [''notes.txt''] else [])\<rparr>
     ''subs'' None
   = Inr ([NoSubmissionFiles ''subs''],
          \<lparr>files = (\<lambda>p. None), writable = (\<lambda>p. True), write_fault = (\<lambda>p. (OSError, None)), mkdir_ok = (\<lambda>p. True),
            listing = (\<lambda>p. if p = ''subs'' then [''notes.txt''] else [])\<rparr>)
   \<and> batch_fix_submissions
     \<lparr>yaml_safe_load = (\<lambda>t. None), json_load = (\<lambda>t. None), yaml_dump = (\<lambda>v. ''dumped'')\<rparr>
     \<lparr>files = (\<lambda>p. if p = ''subs/a.yaml'' then Some ''username: ann'' else None),
       writable = (\<lambda>p. True), write_fault = (\<lambda>p. (OSError, None)), mkdir_ok = (\<lambda>p. False),
       listing = (\<lambda>p. if p = ''subs'' then [''a.yaml''] else [])\<rparr>
     ''subs'' (Some ''fixed'')
   = Inl OSError"
  by (simp add: batch_fix_submissions_def glob_names_def py_endswith_def Let_def)

text \<open>
  C3 (as amended): when the transformation of \<open>fix_submission_file\<close> succeeds on a record
  and no instruction entry of the result still starts with digits and a period or ends
  with whitespace, applying the transformation to the result succeeds and returns the
  result unchanged, keys in the same order.
\<close>

theorem fixed_data_idempotent:
  assumes fx: "fixed_data data = Inr fixed"
      and st: "\<forall>t. YStr t \<in> set (instruction_entries fixed)
                 \<longrightarrow> \<not> has_numbering t \<and> \<not> isspace (last t)"
  shows "fixed_data (YDict fixed) = Inr fixed"
proof -
  from fixed_data_literal[OF fx] obtain d cs where
    cs: "fixed_claims d = Inr cs" and
    fixed: "fixed =
              [(YStr ''username'', dict_get d ''username'' (YStr [])),
               (YStr ''paper_title'', dict_get d ''paper_title'' (YStr [])),
               (YStr ''paper_pdf'', dict_get d ''paper_pdf'' (YStr [])),
               (YStr ''identifier'', dict_get d ''identifier'' (YStr [])),
               (YStr ''claim_type'', YStr ''custom_code''),
               (YStr ''code_url'', dict_get d ''code_url'' (YStr NOT_SPECIFIED)),
               (YStr ''data_url'', dict_get d ''data_url'' (YStr NOT_SPECIFIED)),
               (YStr ''claims'', YList cs),
               (YStr ''non_reproducible_claims'',
                  dict_get d ''non_reproducible_claims'' (YList []))]"
    by blast
  have mc: "map_of fixed (YStr ''claims'') = Some (YList cs)" by (simp add: fixed)
  have ent: "instruction_entries fixed = concat (map claim_instructions cs)"
    by (simp add: instruction_entries_def mc)
  have again: "\<forall>c\<in>set cs. fixed_claim c = Inr c"
  proof
    fix c assume c: "c \<in> set cs"
    then have "cs \<noteq> []" by auto
    with fixed_claims_cases[OF cs] obtain xs where xs: "map_exn fixed_claim xs = Inr cs" by blast
    from map_exn_Inr_set[OF xs c] obtain x where "fixed_claim x = Inr c" by blast
    from fixed_claim_result[OF this] obtain cl insts where
      cc: "c = YDict [(YStr ''claim'', cl),
                      (YStr ''instruction'', YList (cleaned_instructions insts))]"
      by blast
    let ?ins = "cleaned_instructions insts"
    have ci: "claim_instructions c = ?ins" by (simp add: cc)
    have "\<forall>i\<in>set ?ins. \<exists>t. i = YStr t \<and> clean_instruction t = Some t"
    proof
      fix i assume i: "i \<in> set ?ins"
      from cleaned_instructions_shape[OF i] obtain t where t: "i = YStr t" "cleaned_shape t"
        by blast
      from i ci have "i \<in> set (claim_instructions c)" by simp
      with c have "i \<in> set (instruction_entries fixed)" unfolding ent by auto
      with st t(1) have "\<not> has_numbering t" "\<not> isspace (last t)" by auto
      with t(2) have "clean_instruction t = Some t" by (rule clean_instruction_fixed)
      with t(1) show "\<exists>t. i = YStr t \<and> clean_instruction t = Some t" by simp
    qed
    then have "cleaned_instructions ?ins = ?ins" by (rule cleaned_instructions_fixed)
    then show "fixed_claim c = Inr c" unfolding cc by (rule fixed_claim_again)
  qed
  then have me: "map_exn fixed_claim cs = Inr cs" by (rule map_exn_id)
  have fc: "fixed_claims fixed = Inr cs"
    using me by (cases cs) (simp_all add: fixed_claims_def mc)
  have "fixed_data (YDict fixed)
      = Inr [(YStr ''username'', dict_get fixed ''username'' (YStr [])),
               (YStr ''paper_title'', dict_get fixed ''paper_title'' (YStr [])),
               (YStr ''paper_pdf'', dict_get fixed ''paper_pdf'' (YStr [])),
               (YStr ''identifier'', dict_get fixed ''identifier'' (YStr [])),
               (YStr ''claim_type'', YStr ''custom_code''),
               (YStr ''code_url'', dict_get fixed ''code_url'' (YStr NOT_SPECIFIED)),
               (YStr ''data_url'', dict_get fixed ''data_url'' (YStr NOT_SPECIFIED)),
               (YStr ''claims'', YList cs),
               (YStr ''non_reproducible_claims'',
                  dict_get fixed ''non_reproducible_claims'' (YList []))]"
    by (simp add: fc)
  moreover have "dict_get fixed ''username'' (YStr []) = dict_get d ''username'' (YStr [])"
    unfolding fixed by (simp add: dict_get_def)
  moreover have "dict_get fixed ''paper_title'' (YStr []) = dict_get d ''paper_title'' (YStr [])"
    unfolding fixed by (simp add: dict_get_def)
  moreover have "dict_get fixed ''paper_pdf'' (YStr []) = dict_get d ''paper_pdf'' (YStr [])"
    unfolding fixed by (simp add: dict_get_def)
  moreover have "dict_get fixed ''identifier'' (YStr []) = dict_get d ''identifier'' (YStr [])"
    unfolding fixed by (simp add: dict_get_def)
  moreover have "dict_get fixed ''code_url'' (YStr NOT_SPECIFIED)
                   = dict_get d ''code_url'' (YStr NOT_SPECIFIED)"
    unfolding fixed by (simp add: dict_get_def)
  moreover have "dict_get fixed ''data_url'' (YStr NOT_SPECIFIED)
                   = dict_get d ''data_url'' (YStr NOT_SPECIFIED)"
    unfolding fixed by (simp add: dict_get_def)
  moreover have "dict_get fixed ''non_reproducible_claims'' (YList [])
                   = dict_get d ''non_reproducible_claims'' (YList [])"
    unfolding fixed by (simp add: dict_get_def)
  ultimately show ?thesis by (simp only: fixed[symmetric])
qed

theorem fixed_data_idempotent_witness:
  "fixed_data (YDict [(YStr ''claims'',
       YList [YDict [(YStr ''claim'', YStr ''X''), (YStr ''instruction'', YStr ''1. Do thing.'')]])])
     = Inr [(YStr ''username'', YStr []), (YStr ''paper_title'', YStr []),
            (YStr ''paper_pdf'', YStr []), (YStr ''identifier'', YStr []),
            (YStr ''claim_type'', YStr ''custom_code''),
            (YStr ''code_url'', YStr ''NOT_SPECIFIED''),
            (YStr ''data_url'', YStr ''NOT_SPECIFIED''),
            (YStr ''claims'',
               YList [YDict [(YStr ''claim'', YStr ''X''),
                             (YStr ''instruction'', YList [YStr ''Do thing''])]]),
            (YStr ''non_reproducible_claims'', YList [])]
   \<and> fixed_data (YDict [(YStr ''username'', YStr []), (YStr ''paper_title'', YStr []),
            (YStr ''paper_pdf'', YStr []), (YStr ''identifier'', YStr []),
            (YStr ''claim_type'', YStr ''custom_code''),
            (YStr ''code_url'', YStr ''NOT_SPECIFIED''),
            (YStr ''data_url'', YStr ''NOT_SPECIFIED''),
            (YStr ''claims'',
               YList [YDict [(YStr ''claim'', YStr ''X''),
                             (YStr ''instruction'', YList [YStr ''Do thing''])]]),
            (YStr ''non_reproducible_claims'', YList [])])
     = Inr [(YStr ''username'', YStr []), (YStr ''paper_title'', YStr []),
            (YStr ''paper_pdf'', YStr []), (YStr ''identifier'', YStr []),
            (YStr ''claim_type'', YStr ''custom_code''),
            (YStr ''code_url'', YStr ''NOT_SPECIFIED''),
            (YStr ''data_url'', YStr ''NOT_SPECIFIED''),
            (YStr ''claims'',
               YList [YDict [(YStr ''claim'', YStr ''X''),
                             (YStr ''instruction'', YList [YStr ''Do thing''])]]),
            (YStr ''non_reproducible_claims'', YList [])]"
  (is "fixed_data ?D = Inr ?R \<and> fixed_data (YDict ?R) = Inr ?R")
proof -
  have c: "clean_instruction ''1. Do thing.'' = Some ''Do thing''"
    by (simp add: clean_instruction_def rstrip_dots_def re_sub_numbering_def py_strip_def
        py_lstrip_def py_rstrip_def isspace_def isdigit_def)
  have h: "fixed_data ?D = Inr ?R"
    by (simp add: fixed_claims_def dict_get_def NOT_SPECIFIED_def c)
  have e: "instruction_entries ?R = [YStr ''Do thing'']"
    by (simp add: instruction_entries_def)
  have st: "\<forall>t. YStr t \<in> set (instruction_entries ?R)
                 \<longrightarrow> \<not> has_numbering t \<and> \<not> isspace (last t)"
    unfolding e by (simp add: has_numbering_def isspace_def isdigit_def)
  from h fixed_data_idempotent[OF h st] show ?thesis by (rule conjI)
qed

text \<open>
  Without the condition the transformation is not idempotent: only one numbering prefix is
  removed per run, so \<^verbatim>\<open>1. 2. run\<close> becomes \<^verbatim>\<open>2. run\<close>, and a second run changes the
  record again.
\<close>

theorem fixed_data_twice_counterexample:
  "fixed_data (YDict [(YStr ''claims'',
       YList [YDict [(YStr ''claim'', YStr ''X''),
                     (YStr ''instruction'', YList [YStr ''1. 2. run''])]])])
     = Inr [(YStr ''username'', YStr []), (YStr ''paper_title'', YStr []),
            (YStr ''paper_pdf'', YStr []), (YStr ''identifier'', YStr []),
            (YStr ''claim_type'', YStr ''custom_code''),
            (YStr ''code_url'', YStr ''NOT_SPECIFIED''),
            (YStr ''data_url'', YStr ''NOT_SPECIFIED''),
            (YStr ''claims'',
               YList [YDict [(YStr ''claim'', YStr ''X''),
                             (YStr ''instruction'', YList [YStr ''2. run''])]]),
            (YStr ''non_reproducible_claims'', YList [])]
   \<and> fixed_data (YDict [(YStr ''username'', YStr []), (YStr ''paper_title'', YStr []),
            (YStr ''paper_pdf'', YStr []), (YStr ''identifier'', YStr []),
            (YStr ''claim_type'', YStr ''custom_code''),
            (YStr ''code_url'', YStr ''NOT_SPECIFIED''),
            (YStr ''data_url'', YStr ''NOT_SPECIFIED''),
            (YStr ''claims'',
               YList [YDict [(YStr ''claim'', YStr ''X''),
                             (YStr ''instruction'', YList [YStr ''2. run''])]]),
            (YStr ''non_reproducible_claims'', YList [])])
     \<noteq> Inr [(YStr ''username'', YStr []), (YStr ''paper_title'', YStr []),
            (YStr ''paper_pdf'', YStr []), (YStr ''identifier'', YStr []),
            (YStr ''claim_type'', YStr ''custom_code''),
            (YStr ''code_url'', YStr ''NOT_SPECIFIED''),
            (YStr ''data_url'', YStr ''NOT_SPECIFIED''),
            (YStr ''claims'',
               YList [YDict [(YStr ''claim'', YStr ''X''),
                             (YStr ''instruction'', YList [YStr ''2. run''])]]),
            (YStr ''non_reproducible_claims'', YList [])]"
proof -
  have c1: "clean_instruction ''1. 2. run'' = Some ''2. run''"
    by (simp add: clean_instruction_def rstrip_dots_def re_sub_numbering_def py_strip_def
        py_lstrip_def py_rstrip_def isspace_def isdigit_def)
  have c2: "clean_instruction ''2. run'' = Some ''run''"
    by (simp add: clean_instruction_def rstrip_dots_def re_sub_numbering_def py_strip_def
        py_lstrip_def py_rstrip_def isspace_def isdigit_def)
  show ?thesis
    by (simp add: fixed_claims_def dict_get_def NOT_SPECIFIED_def c1 c2)
qed

section \<open>Further properties\<close>

text \<open>
  \<open>validate_filename\<close> away from the final newline: a file name whose base name is not
  empty and has only characters of \<^verbatim>\<open>[a-zA-Z0-9_.-]\<close> is accepted with its base name; a
  file name whose base name has another character, unless all that follows the leading
  allowed characters is one newline, is refused with every such character of the base name
  replaced by an underscore.
\<close>

theorem validate_filename_spec:
  "(basename f \<noteq> [] \<and> (\<forall>c\<in>set (basename f). allowed_char c)
      \<longrightarrow> validate_filename f = (True, basename f))
   \<and> ((\<exists>c\<in>set (basename f). \<not> allowed_char c)
        \<and> dropWhile allowed_char (basename f) \<noteq> [CHR 0x0A]
      \<longrightarrow> validate_filename f
            = (False, map (\<lambda>c. if allowed_char c then c else CHR ''_'') (basename f)))"
proof (intro conjI impI)
  assume a: "basename f \<noteq> [] \<and> (\<forall>c\<in>set (basename f). allowed_char c)"
  then have t: "takeWhile allowed_char (basename f) = basename f"
    and d: "dropWhile allowed_char (basename f) = []"
    by (simp_all add: takeWhile_eq_all_conv)
  from a have "re_match_allowed (basename f)"
    unfolding re_match_allowed_def Let_def t d by simp
  then show "validate_filename f = (True, basename f)"
    by (simp add: validate_filename_def Let_def)
next
  assume a: "(\<exists>c\<in>set (basename f). \<not> allowed_char c)
        \<and> dropWhile allowed_char (basename f) \<noteq> [CHR 0x0A]"
  then have "dropWhile allowed_char (basename f) \<noteq> []" by simp
  with a have "\<not> re_match_allowed (basename f)"
    by (simp add: re_match_allowed_def Let_def del: dropWhile_eq_Nil_conv)
  then show "validate_filename f
            = (False, map (\<lambda>c. if allowed_char c then c else CHR ''_'') (basename f))"
    by (simp add: validate_filename_def re_sub_disallowed_def Let_def)
qed

theorem validate_filename_spec_witness:
  "validate_filename ''submissions/ok-file_1.yaml'' = (True, ''ok-file_1.yaml'')
   \<and> validate_filename ''bad file!.yaml'' = (False, ''bad_file_.yaml'')"
proof
  have b: "basename ''submissions/ok-file_1.yaml'' = ''ok-file_1.yaml''"
    by (simp add: basename_def)
  have "basename ''submissions/ok-file_1.yaml'' \<noteq> []
        \<and> (\<forall>c\<in>set (basename ''submissions/ok-file_1.yaml''). allowed_char c)"
    unfolding b by (simp add: allowed_char_def)
  with validate_filename_spec[of "''submissions/ok-file_1.yaml''"]
  show "validate_filename ''submissions/ok-file_1.yaml'' = (True, ''ok-file_1.yaml'')"
    unfolding b by blast
next
  have b: "basename ''bad file!.yaml'' = ''bad file!.yaml''"
    by (simp add: basename_def)
  have "(\<exists>c\<in>set (basename ''bad file!.yaml''). \<not> allowed_char c)
        \<and> dropWhile allowed_char (basename ''bad file!.yaml'') \<noteq> [CHR 0x0A]"
    unfolding b by (simp add: allowed_char_def)
  with validate_filename_spec[of "''bad file!.yaml''"]
  have "validate_filename ''bad file!.yaml''
      = (False, map (\<lambda>c. if allowed_char c then c else CHR ''_'') (basename ''bad file!.yaml''))"
    by blast
  then show "validate_filename ''bad file!.yaml'' = (False, ''bad_file_.yaml'')"
    unfolding b by (simp add: allowed_char_def)
qed

text \<open>
  When \<open>fix_submission_file\<close> returns \<open>True\<close>, the input file was loaded, the record
  transformation succeeded on it, and the only change to the file system is that the
  target holds the dump of the transformed record.
\<close>

theorem success_writes_fixed_data:
  assumes "fix_submission_file cd s input_file output_file = (True, out, s')"
  shows "\<exists>data fixed.
           load_submission cd s input_file = Inr data
           \<and> fixed_data data = Inr fixed
           \<and> s' = write_file s (case output_file of None \<Rightarrow> input_file | Some p \<Rightarrow> p)
                     (yaml_dump cd (YDict fixed))"
proof -
  let ?t = "case output_file of None \<Rightarrow> input_file | Some p \<Rightarrow> p"
  obtain ws r where b: "fix_submission_body cd s input_file ?t = (ws, r)"
    by (cases "fix_submission_body cd s input_file ?t")
  with assms obtain s1 where r: "r = Inr s1" and s1: "s1 = s'"
    by (cases r) (auto simp: fix_submission_file_def Let_def)
  from b r s1 show ?thesis
    unfolding fix_submission_body_def
    by (auto split: sum.splits prod.splits option.splits if_splits)
qed

theorem success_writes_fixed_data_witness:
  "fix_submission_file
     \<lparr>yaml_safe_load = (\<lambda>t. if t = ''username: ann'' then Some (YDict [(YStr ''username'', YStr ''ann'')])
                             else None),
       json_load = (\<lambda>t. None), yaml_dump = (\<lambda>v. ''dumped'')\<rparr>
     \<lparr>files = (\<lambda>p. if p = ''a.yaml'' then Some ''username: ann'' else None),
       writable = (\<lambda>p. True), write_fault = (\<lambda>p. (OSError, None)), mkdir_ok = (\<lambda>p. True), listing = (\<lambda>p. [])\<rparr>
     ''a.yaml'' (Some ''b.yaml'')
   = (True, [SuccessfullyFixed ''a.yaml''],
      write_file \<lparr>files = (\<lambda>p. if p = ''a.yaml'' then Some ''username: ann'' else None),
       writable = (\<lambda>p. True), write_fault = (\<lambda>p. (OSError, None)), mkdir_ok = (\<lambda>p. True), listing = (\<lambda>p. [])\<rparr> ''b.yaml'' ''dumped'')"
  (is "fix_submission_file ?cd ?s ?a ?b = (True, ?out, ?s')")
proof -
  have h: "fix_submission_file ?cd ?s ?a ?b
             = (True, ?out, snd (snd (fix_submission_file ?cd ?s ?a ?b)))"
    by (simp add: fix_submission_file_def fix_submission_body_def load_submission_def
        fixed_claims_def dict_get_def url_fields_def check_url_def NOT_SPECIFIED_def Let_def)
  from success_writes_fixed_data[OF h] obtain data fixed where
    "snd (snd (fix_submission_file ?cd ?s ?a ?b))
       = write_file ?s (case ?b of None \<Rightarrow> ?a | Some p \<Rightarrow> p) (yaml_dump ?cd (YDict fixed))"
    by blast
  then have "snd (snd (fix_submission_file ?cd ?s ?a ?b)) = ?s'" by simp
  with h show ?thesis by simp
qed

text \<open>
  A string instruction that is empty after cleaning is not appended: the cleaned list is
  strictly shorter than the list of instructions.
\<close>

theorem empty_instruction_dropped:
  assumes "YStr s \<in> set xs" and "clean_instruction s = None"
  shows "length (cleaned_instructions xs) < length xs
         \<and> cleaned_instructions (YStr s # rest) = cleaned_instructions rest"
proof -
  from assms have "length (cleaned_instructions xs) < length xs"
  proof (induction xs rule: cleaned_instructions.induct)
    case 1
    then show ?case by simp
  next
    case (2 s' rest')
    then show ?case
      using cleaned_instructions_length[of rest']
      by (cases "s' = s") (auto split: option.splits simp: less_Suc_eq_le)
  qed (auto simp: less_Suc_eq_le)
  with assms(2) show ?thesis by simp
qed

theorem empty_instruction_dropped_witness:
  "length (cleaned_instructions [YStr ''run'', YStr '' 3. ''])  < length [YStr ''run'', YStr '' 3. '']
   \<and> cleaned_instructions [YStr '' 3. '', YStr ''1. Do thing.''] = cleaned_instructions [YStr ''1. Do thing.'']"
proof -
  have c: "clean_instruction '' 3. '' = None"
    by (simp add: clean_instruction_def rstrip_dots_def re_sub_numbering_def py_strip_def
        py_lstrip_def py_rstrip_def isspace_def isdigit_def)
  have m: "YStr '' 3. '' \<in> set [YStr ''run'', YStr '' 3. '']" by simp
  from empty_instruction_dropped[OF m c, of "[YStr ''1. Do thing.'']"] show ?thesis .
qed

end
